theory Spec2Isabelle
  imports Complex_Main "HOL-Library.Multiset"
begin

section \<open>Problem2.ipynb: a frozen BERT encoder with a trained classifier head\<close>

text \<open>
  The notebook is modelled cell by cell. Exceptions of the Python code are values of
  \<open>error\<close>; a function that can raise returns \<open>error + 'a\<close> with \<open>Inl\<close> the exception.
  Floating-point losses and accuracies are read as reals. The scalars held in tensors are
  a type with \<open>0\<close>, \<open>+\<close>, \<open>*\<close> and an order, of which no algebraic law is used.
\<close>

datatype error = IndexError | KeyError | ZeroDivisionError | RuntimeError

text \<open>
  Three libraries do the numerical work: scikit-learn splits the labeled texts, the
  transformers library tokenizes them and provides the encoder, and torch provides
  modules, data loaders, gradients and the optimizer. The split of cell 3
  (\<^verbatim>\<open>train_test_split\<close> with \<^verbatim>\<open>test_size=0.1\<close> and \<^verbatim>\<open>stratify=train_labels\<close>)
  is a single library call: the texts and labels of a partition are the inputs of what
  follows. Of the other library calls the model keeps what the notebook relies on, and
  says so where it does.
\<close>

subsection \<open>Cell 1: device selection\<close>

text \<open>
  \<^verbatim>\<open>device = torch.device('cuda' if torch.cuda.is_available() else 'mps')\<close>
  The machine is described by what it offers; the code asks only for CUDA.
\<close>

record machine =
  cuda_is_available :: bool
  mps_is_available :: bool

definition device :: "machine \<Rightarrow> string" where
  "device mc = (if cuda_is_available mc then ''cuda'' else ''mps'')"

subsection \<open>Cell 4: tokenization\<close>

text \<open>
  \<^verbatim>\<open>tokenizer(texts, max_length=MAX_LENGTH, padding="max_length", truncation=True)\<close>.
  The tokenizer belongs to the transformers library. Its pretrained vocabulary is the
  parameter \<open>wordpiece\<close>, which gives the ids of a text's word pieces. What the call does
  with them is modelled after the library's documentation of these three arguments, for
  \<open>max_length \<ge> 2\<close>: with truncation the word pieces are cut so that the sequence with
  its two special tokens has at most \<open>max_length\<close> entries; \<^verbatim>\<open>[CLS]\<close> and
  \<^verbatim>\<open>[SEP]\<close> are put around them; the padding strategy then fills every sequence with
  the pad id, and the attention mask is 1 on the tokens and 0 on the padding.
\<close>

datatype padding_strategy = DoNotPad | Longest | MaxLength

definition cls_token_id :: int where "cls_token_id = 101"
definition sep_token_id :: int where "sep_token_id = 102"
definition pad_token_id :: int where "pad_token_id = 0"

definition truncate_pieces :: "bool \<Rightarrow> nat \<Rightarrow> int list \<Rightarrow> int list" where
  "truncate_pieces truncation max_length pieces =
     (if truncation \<and> max_length < length pieces + 2 then take (max_length - 2) pieces else pieces)"

definition add_special_tokens :: "int list \<Rightarrow> int list" where
  "add_special_tokens pieces = cls_token_id # pieces @ [sep_token_id]"

definition pad_target :: "padding_strategy \<Rightarrow> nat \<Rightarrow> int list list \<Rightarrow> nat" where
  "pad_target padding max_length seqs =
     (case padding of
        DoNotPad \<Rightarrow> 0
      | Longest \<Rightarrow> foldr max (map length seqs) 0
      | MaxLength \<Rightarrow> max_length)"

definition pad_ids :: "nat \<Rightarrow> int list \<Rightarrow> int list" where
  "pad_ids n ids = ids @ replicate (n - length ids) pad_token_id"

definition pad_mask :: "nat \<Rightarrow> int list \<Rightarrow> int list" where
  "pad_mask n ids = replicate (length ids) 1 @ replicate (n - length ids) 0"

definition pad_type_ids :: "nat \<Rightarrow> int list \<Rightarrow> int list" where
  "pad_type_ids n ids = replicate (length ids) 0 @ replicate (n - length ids) 0"

definition tokenizer ::
  "(string \<Rightarrow> int list) \<Rightarrow> string list \<Rightarrow> nat \<Rightarrow> padding_strategy \<Rightarrow> bool \<Rightarrow> (string \<times> int list list) list" where
  "tokenizer wordpiece texts max_length padding truncation =
     (let seqs = map (\<lambda>t. add_special_tokens (truncate_pieces truncation max_length (wordpiece t))) texts;
          n = pad_target padding max_length seqs
      in [(''input_ids'', map (pad_ids n) seqs),
          (''token_type_ids'', map (pad_type_ids n) seqs),
          (''attention_mask'', map (pad_mask n) seqs)])"

definition MAX_LENGTH :: nat where "MAX_LENGTH = 256"

definition tokenize_function :: "(string \<Rightarrow> int list) \<Rightarrow> string list \<Rightarrow> (string \<times> int list list) list" where
  "tokenize_function wordpiece texts = tokenizer wordpiece texts MAX_LENGTH MaxLength True"

subsection \<open>Cell 5: IMDbDataset\<close>

text \<open>
  Python list indexing with an integer: a negative index counts from the end, an index
  out of range raises IndexError.
\<close>

definition py_getitem :: "'a list \<Rightarrow> int \<Rightarrow> error + 'a" where
  "py_getitem xs i =
     (if 0 \<le> i \<and> i < int (length xs) then Inr (xs ! nat i)
      else if i < 0 \<and> - int (length xs) \<le> i then Inr (xs ! nat (int (length xs) + i))
      else Inl IndexError)"

text \<open>What \<^verbatim>\<open>torch.tensor\<close> is given here: an integer, or a list of integers.\<close>

datatype tensor = Tensor0 int | Tensor1 "int list"

text \<open>
  A Python dict is an association list with distinct keys; \<open>dict_set\<close> is
  \<^verbatim>\<open>d[k] = v\<close>: an existing key keeps its place and takes the new value, a new key
  goes to the end.
\<close>

fun dict_set :: "('k \<times> 'v) list \<Rightarrow> 'k \<Rightarrow> 'v \<Rightarrow> ('k \<times> 'v) list" where
  "dict_set [] k v = [(k, v)]"
| "dict_set ((k', v') # d) k v = (if k' = k then (k, v) # d else (k', v') # dict_set d k v)"

definition dict_get :: "('k \<times> 'v) list \<Rightarrow> 'k \<Rightarrow> error + 'v" where
  "dict_get d k = (case map_of d k of None \<Rightarrow> Inl KeyError | Some v \<Rightarrow> Inr v)"

record IMDbDataset =
  encodings :: "(string \<times> int list list) list"
  labels :: "int list"

text \<open>
  \<^verbatim>\<open>{k: torch.tensor(v[idx]) for k, v in self.encodings.items()}\<close>: the entries are
  visited in order, each stored under its key, and the first failing \<^verbatim>\<open>v[idx]\<close> raises.
\<close>

fun item_of_encodings ::
  "(string \<times> tensor) list \<Rightarrow> (string \<times> int list list) list \<Rightarrow> int \<Rightarrow> error + (string \<times> tensor) list" where
  "item_of_encodings item [] idx = Inr item"
| "item_of_encodings item ((k, v) # kvs) idx =
     (case py_getitem v idx of
        Inl e \<Rightarrow> Inl e
      | Inr row \<Rightarrow> item_of_encodings (dict_set item k (Tensor1 row)) kvs idx)"

definition getitem :: "IMDbDataset \<Rightarrow> int \<Rightarrow> error + (string \<times> tensor) list" where
  "getitem ds idx =
     (case item_of_encodings [] (encodings ds) idx of
        Inl e \<Rightarrow> Inl e
      | Inr item \<Rightarrow>
          (case py_getitem (labels ds) idx of
             Inl e \<Rightarrow> Inl e
           | Inr l \<Rightarrow> Inr (dict_set item ''labels'' (Tensor0 l))))"

definition len :: "IMDbDataset \<Rightarrow> nat" where
  "len ds = length (labels ds)"

text \<open>Every encoding list has an entry for every label.\<close>

definition encodings_cover :: "IMDbDataset \<Rightarrow> bool" where
  "encodings_cover ds = list_all (\<lambda>kv. length (labels ds) \<le> length (snd kv)) (encodings ds)"

subsection \<open>Cell 6: CustomBERTModel\<close>

text \<open>
  A parameter tensor is read through its indices: \<open>data w [j, i]\<close> is the entry in row
  \<open>j\<close> and column \<open>i\<close> of a weight matrix, \<open>data b [j]\<close> entry \<open>j\<close> of a bias. Its shape
  is that of the module that owns it and never changes.
\<close>

type_synonym 'a entries = "nat list \<Rightarrow> 'a"

record 'a Parameter =
  data :: "'a entries"
  requires_grad :: bool
  grad :: "'a entries option"

text \<open>The modules of the classifier: \<^verbatim>\<open>nn.Linear(in_features, out_features)\<close> with its weight and bias, and \<^verbatim>\<open>nn.ReLU()\<close>.\<close>

datatype 'a Module = Linear nat nat "'a Parameter" "'a Parameter" | ReLU

text \<open>A new \<^verbatim>\<open>nn.Linear\<close> has trainable parameters without a gradient; their initial values are given.\<close>

definition nn_Linear :: "nat \<Rightarrow> nat \<Rightarrow> 'a entries \<Rightarrow> 'a entries \<Rightarrow> 'a Module" where
  "nn_Linear in_features out_features w0 b0 =
     Linear in_features out_features
       \<lparr>data = w0, requires_grad = True, grad = None\<rparr>
       \<lparr>data = b0, requires_grad = True, grad = None\<rparr>"

record 'a CustomBERTModel =
  bert :: "'a Parameter list"
  classifier :: "'a Module list"
  training :: bool

text \<open>
  \<^verbatim>\<open>__init__\<close>: \<open>pretrained\<close> are the parameters that \<^verbatim>\<open>BertModel.from_pretrained\<close>
  loads; the loop sets \<^verbatim>\<open>requires_grad = False\<close> on each. \<open>w0 k\<close> and \<open>b0 k\<close> are the
  initial values of the \<open>k\<close>-th linear layer.
\<close>

definition CustomBERTModel_init ::
  "'a Parameter list \<Rightarrow> (nat \<Rightarrow> 'a entries) \<Rightarrow> (nat \<Rightarrow> 'a entries) \<Rightarrow> nat \<Rightarrow> 'a CustomBERTModel" where
  "CustomBERTModel_init pretrained w0 b0 num_classes =
     \<lparr>bert = map (\<lambda>param. param\<lparr>requires_grad := False\<rparr>) pretrained,
      classifier =
        [nn_Linear 768 512 (w0 0) (b0 0),
         ReLU,
         nn_Linear 512 256 (w0 1) (b0 1),
         ReLU,
         nn_Linear 256 128 (w0 2) (b0 2),
         ReLU,
         nn_Linear 128 num_classes (w0 3) (b0 3)],
      training = True\<rparr>"

text \<open>
  The numerical library, as far as the notebook calls it. No property of these functions
  is assumed except where a theorem says so.
  \<^item> \<open>bert_forward\<close>: the pooler output of the encoder, one row per example, from the
    training flag, the encoder's parameter values and the batch;
  \<^item> \<open>cross_entropy\<close>: \<^verbatim>\<open>nn.CrossEntropyLoss()\<close> on logits and labels;
  \<^item> \<open>autograd\<close>: the gradient of that loss with respect to one parameter;
  \<^item> \<open>accumulate\<close>: the sum of two gradients;
  \<^item> \<open>adam_update\<close>: Adam's new value of one parameter from the optimizer's state, the
    parameter's value and its gradient, with the new state.
\<close>

datatype ref = BertParam nat | HeadWeight nat | HeadBias nat

record ('a, 'o) torch =
  bert_forward :: "bool \<Rightarrow> 'a entries list \<Rightarrow> tensor list \<Rightarrow> tensor list \<Rightarrow> 'a list list"
  cross_entropy :: "'a list list \<Rightarrow> tensor list \<Rightarrow> real"
  autograd :: "'a CustomBERTModel \<Rightarrow> tensor list \<Rightarrow> tensor list \<Rightarrow> tensor list \<Rightarrow> ref \<Rightarrow> 'a entries"
  accumulate :: "'a entries \<Rightarrow> 'a entries \<Rightarrow> 'a entries"
  adam_update :: "'o \<Rightarrow> ref \<Rightarrow> 'a entries \<Rightarrow> 'a entries \<Rightarrow> 'a entries \<times> 'o"

text \<open>Running a function that can raise over a list: the first exception ends it.\<close>

fun map_err :: "('x \<Rightarrow> error + 'y) \<Rightarrow> 'x list \<Rightarrow> error + 'y list" where
  "map_err f [] = Inr []"
| "map_err f (x # xs) =
     (case f x of
        Inl e \<Rightarrow> Inl e
      | Inr y \<Rightarrow> (case map_err f xs of Inl e \<Rightarrow> Inl e | Inr ys \<Rightarrow> Inr (y # ys)))"

text \<open>
  A linear layer on one row: \<open>y[j] = sum_i x[i] * W[j, i] + b[j]\<close>; a row that has not
  \<open>in_features\<close> entries is a shape error.
\<close>

definition linear_row ::
  "nat \<Rightarrow> nat \<Rightarrow> 'a entries \<Rightarrow> 'a entries \<Rightarrow> 'a list \<Rightarrow> error + ('a::{zero,plus,times}) list" where
  "linear_row in_features out_features w b x =
     (if length x \<noteq> in_features then Inl RuntimeError
      else Inr (map (\<lambda>j. foldl (+) 0 (map (\<lambda>i. x ! i * w [j, i]) [0..<in_features]) + b [j])
                  [0..<out_features]))"

definition relu_row :: "('a::{zero,ord}) list \<Rightarrow> 'a list" where
  "relu_row x = map (max 0) x"

fun module_forward :: "('a::{zero,plus,times,ord}) Module \<Rightarrow> 'a list list \<Rightarrow> error + 'a list list" where
  "module_forward (Linear in_features out_features w b) rows =
     map_err (linear_row in_features out_features (data w) (data b)) rows"
| "module_forward ReLU rows = Inr (map relu_row rows)"

text \<open>\<^verbatim>\<open>nn.Sequential\<close>: each module is applied to the output of the one before.\<close>

fun sequential_forward :: "('a::{zero,plus,times,ord}) Module list \<Rightarrow> 'a list list \<Rightarrow> error + 'a list list" where
  "sequential_forward [] rows = Inr rows"
| "sequential_forward (md # mds) rows =
     (case module_forward md rows of
        Inl e \<Rightarrow> Inl e
      | Inr rows' \<Rightarrow> sequential_forward mds rows')"

definition forward ::
  "('a, 'o) torch \<Rightarrow> ('a::{zero,plus,times,ord}) CustomBERTModel \<Rightarrow> tensor list \<Rightarrow> tensor list \<Rightarrow> error + 'a list list" where
  "forward T m input_ids attention_mask =
     (let pooled_output = bert_forward T (training m) (map data (bert m)) input_ids attention_mask
      in sequential_forward (classifier m) pooled_output)"

text \<open>The shape of a module, without its parameters.\<close>

datatype layer_kind = LinearLayer nat nat | ReLULayer

fun kind_of :: "'a Module \<Rightarrow> layer_kind" where
  "kind_of (Linear in_features out_features w b) = LinearLayer in_features out_features"
| "kind_of ReLU = ReLULayer"

definition architecture :: "'a CustomBERTModel \<Rightarrow> layer_kind list" where
  "architecture m = map kind_of (classifier m)"

text \<open>
  The classifier as the comment in \<^verbatim>\<open>__init__\<close> gives it:
  \<^verbatim>\<open>768 -> 512 -> 256 -> 128 -> num_classes\<close>, four linear layers with a ReLU between
  each two.
\<close>

definition head_architecture :: "nat \<Rightarrow> layer_kind list" where
  "head_architecture num_classes =
     [LinearLayer 768 512, ReLULayer, LinearLayer 512 256, ReLULayer,
      LinearLayer 256 128, ReLULayer, LinearLayer 128 num_classes]"

text \<open>The pooler output of the encoder has one row of 768 entries for each example.\<close>

definition pooler_shape :: "('a, 'o) torch \<Rightarrow> bool" where
  "pooler_shape T =
     (\<forall>tr \<theta> input_ids attention_mask.
        length (bert_forward T tr \<theta> input_ids attention_mask) = length input_ids \<and>
        list_all (\<lambda>row. length row = 768) (bert_forward T tr \<theta> input_ids attention_mask))"

subsection \<open>Cell 8: data loaders\<close>

text \<open>
  \<^verbatim>\<open>DataLoader(dataset, batch_size=batch_size, shuffle=...)\<close>, with the library's
  defaults for the rest: the last batch is kept when it is short
  (\<^verbatim>\<open>drop_last=False\<close>). The batch sampler collects the sampler's indices into lists
  of \<open>batch_size\<close>; the loader fetches \<^verbatim>\<open>dataset[i]\<close> for each index of a batch.
  A batch is modelled as the list of its fetched items: row \<open>i\<close> of every stacked tensor
  of the batch is item \<open>i\<close>. The sampler of a shuffling loader draws a permutation of
  the indices each time the loader is iterated; that permutation is the argument \<open>perm\<close>.
\<close>

datatype DataLoader = DataLoader IMDbDataset nat bool

definition batch_size :: nat where "batch_size = 8"

definition train_loader :: "IMDbDataset \<Rightarrow> DataLoader" where
  "train_loader train_dataset = DataLoader train_dataset batch_size True"

definition val_loader :: "IMDbDataset \<Rightarrow> DataLoader" where
  "val_loader val_dataset = DataLoader val_dataset batch_size False"

definition test_loader :: "IMDbDataset \<Rightarrow> DataLoader" where
  "test_loader test_dataset = DataLoader test_dataset batch_size False"

fun batch_sampler :: "nat \<Rightarrow> bool \<Rightarrow> nat list \<Rightarrow> nat list \<Rightarrow> nat list list" where
  "batch_sampler bs drop_last batch [] = (if 0 < length batch \<and> \<not> drop_last then [batch] else [])"
| "batch_sampler bs drop_last batch (idx # rest) =
     (if length (batch @ [idx]) = bs then (batch @ [idx]) # batch_sampler bs drop_last [] rest
      else batch_sampler bs drop_last (batch @ [idx]) rest)"

fun sampler :: "DataLoader \<Rightarrow> nat list \<Rightarrow> nat list" where
  "sampler (DataLoader ds bs shuffle) perm = (if shuffle then perm else [0..<len ds])"

fun fetch :: "IMDbDataset \<Rightarrow> nat list \<Rightarrow> error + (string \<times> tensor) list list" where
  "fetch ds indices = map_err (\<lambda>i. getitem ds (int i)) indices"

fun loader_iter :: "DataLoader \<Rightarrow> nat list \<Rightarrow> error + (string \<times> tensor) list list list" where
  "loader_iter (DataLoader ds bs shuffle) perm =
     map_err (fetch ds) (batch_sampler bs False [] (sampler (DataLoader ds bs shuffle) perm))"

text \<open>\<^verbatim>\<open>len(loader)\<close>: the number of batches, the dataset's length divided by the batch size and rounded up.\<close>

fun loader_len :: "DataLoader \<Rightarrow> nat" where
  "loader_len (DataLoader ds bs shuffle) = (len ds + bs - 1) div bs"

subsection \<open>Cell 9: trainable parameters and the optimizer\<close>

text \<open>
  The optimizer holds references to parameter objects of the model. A reference names
  an encoder parameter by its position, or the weight or bias of the module at a
  position of the classifier.
\<close>

definition get_param :: "'a CustomBERTModel \<Rightarrow> ref \<Rightarrow> 'a Parameter option" where
  "get_param m r =
     (case r of
        BertParam i \<Rightarrow> (if i < length (bert m) then Some (bert m ! i) else None)
      | HeadWeight k \<Rightarrow>
          (if k < length (classifier m)
           then (case classifier m ! k of Linear n_in n_out w b \<Rightarrow> Some w | ReLU \<Rightarrow> None)
           else None)
      | HeadBias k \<Rightarrow>
          (if k < length (classifier m)
           then (case classifier m ! k of Linear n_in n_out w b \<Rightarrow> Some b | ReLU \<Rightarrow> None)
           else None))"

fun map_weight :: "('a Parameter \<Rightarrow> 'a Parameter) \<Rightarrow> 'a Module \<Rightarrow> 'a Module" where
  "map_weight f (Linear n_in n_out w b) = Linear n_in n_out (f w) b"
| "map_weight f ReLU = ReLU"

fun map_bias :: "('a Parameter \<Rightarrow> 'a Parameter) \<Rightarrow> 'a Module \<Rightarrow> 'a Module" where
  "map_bias f (Linear n_in n_out w b) = Linear n_in n_out w (f b)"
| "map_bias f ReLU = ReLU"

text \<open>A change of the parameter object behind a reference.\<close>

definition map_param :: "('a Parameter \<Rightarrow> 'a Parameter) \<Rightarrow> ref \<Rightarrow> 'a CustomBERTModel \<Rightarrow> 'a CustomBERTModel" where
  "map_param f r m =
     (case r of
        BertParam i \<Rightarrow>
          (if i < length (bert m) then m\<lparr>bert := (bert m)[i := f (bert m ! i)]\<rparr> else m)
      | HeadWeight k \<Rightarrow>
          (if k < length (classifier m)
           then m\<lparr>classifier := (classifier m)[k := map_weight f (classifier m ! k)]\<rparr> else m)
      | HeadBias k \<Rightarrow>
          (if k < length (classifier m)
           then m\<lparr>classifier := (classifier m)[k := map_bias f (classifier m ! k)]\<rparr> else m))"

fun module_refs :: "nat \<Rightarrow> 'a Module \<Rightarrow> ref list" where
  "module_refs k (Linear n_in n_out w b) = [HeadWeight k, HeadBias k]"
| "module_refs k ReLU = []"

text \<open>\<^verbatim>\<open>model.parameters()\<close>: the encoder's parameters, then the classifier's, module by module.\<close>

definition parameters :: "'a CustomBERTModel \<Rightarrow> ref list" where
  "parameters m =
     map BertParam [0..<length (bert m)] @
     concat (map (\<lambda>k. module_refs k (classifier m ! k)) [0..<length (classifier m)])"

text \<open>\<^verbatim>\<open>[p for p in model.parameters() if p.requires_grad]\<close>\<close>

definition trainable_params :: "'a CustomBERTModel \<Rightarrow> ref list" where
  "trainable_params m =
     filter (\<lambda>r. case get_param m r of Some p \<Rightarrow> requires_grad p | None \<Rightarrow> False) (parameters m)"

record 'o optimizer =
  param_groups :: "ref list"
  state :: 'o
  step_count :: nat

text \<open>\<^verbatim>\<open>optim.Adam(trainable_params, lr=1e-4)\<close>; \<open>s0\<close> is Adam's initial state.\<close>

definition optim_Adam :: "ref list \<Rightarrow> 'o \<Rightarrow> 'o optimizer" where
  "optim_Adam params s0 = \<lparr>param_groups = params, state = s0, step_count = 0\<rparr>"

text \<open>\<^verbatim>\<open>optimizer.zero_grad()\<close>: the gradient of every parameter of the optimizer is cleared.\<close>

definition zero_grad :: "'o optimizer \<Rightarrow> 'a CustomBERTModel \<Rightarrow> 'a CustomBERTModel" where
  "zero_grad opt m = fold (map_param (\<lambda>p. p\<lparr>grad := None\<rparr>)) (param_groups opt) m"

text \<open>
  \<^verbatim>\<open>loss.backward()\<close>: every parameter with \<^verbatim>\<open>requires_grad\<close> receives the gradient
  of the loss, added to the gradient it holds; the others are not touched.
\<close>

definition receive_grad :: "('a, 'o) torch \<Rightarrow> 'a entries \<Rightarrow> 'a Parameter \<Rightarrow> 'a Parameter" where
  "receive_grad T g p =
     (if requires_grad p
      then p\<lparr>grad := Some (case grad p of None \<Rightarrow> g | Some g0 \<Rightarrow> accumulate T g0 g)\<rparr>
      else p)"

definition backward ::
  "('a, 'o) torch \<Rightarrow> 'a CustomBERTModel \<Rightarrow> tensor list \<Rightarrow> tensor list \<Rightarrow> tensor list \<Rightarrow> 'a CustomBERTModel" where
  "backward T m input_ids attention_mask batch_labels =
     fold (\<lambda>r. map_param (receive_grad T (autograd T m input_ids attention_mask batch_labels r)) r)
       (parameters m) m"

text \<open>
  \<^verbatim>\<open>optimizer.step()\<close>: each parameter of the optimizer that holds a gradient takes
  Adam's new value; a parameter without gradient is skipped.
\<close>

definition step_param ::
  "('a, 'o) torch \<Rightarrow> ref \<Rightarrow> 'a CustomBERTModel \<times> 'o \<Rightarrow> 'a CustomBERTModel \<times> 'o" where
  "step_param T r ms =
     (case get_param (fst ms) r of
        None \<Rightarrow> ms
      | Some p \<Rightarrow>
          (case grad p of
             None \<Rightarrow> ms
           | Some g \<Rightarrow>
               (let (d, s) = adam_update T (snd ms) r (data p) g
                in (map_param (\<lambda>q. q\<lparr>data := d\<rparr>) r (fst ms), s))))"

definition step ::
  "('a, 'o) torch \<Rightarrow> 'o optimizer \<Rightarrow> 'a CustomBERTModel \<Rightarrow> 'a CustomBERTModel \<times> 'o optimizer" where
  "step T opt m =
     (let (m', s) = fold (step_param T) (param_groups opt) (m, state opt)
      in (m', opt\<lparr>state := s, step_count := step_count opt + 1\<rparr>))"

text \<open>A reference to a parameter of the classifier head, not of the encoder.\<close>

fun head_ref :: "ref \<Rightarrow> bool" where
  "head_ref (BertParam i) = False"
| "head_ref (HeadWeight k) = True"
| "head_ref (HeadBias k) = True"

text \<open>The encoder is frozen: none of its parameters requires a gradient.\<close>

definition frozen :: "'a CustomBERTModel \<Rightarrow> bool" where
  "frozen m = list_all (\<lambda>p. \<not> requires_grad p) (bert m)"

subsection \<open>Cell 10: the training loop\<close>

text \<open>
  \<^verbatim>\<open>torch.argmax(logits, dim=1)\<close> on one row: the position of the first greatest
  entry; a row without entries has none.
\<close>

fun argmax_from :: "('a::ord) \<Rightarrow> nat \<Rightarrow> nat \<Rightarrow> 'a list \<Rightarrow> nat" where
  "argmax_from best best_pos pos [] = best_pos"
| "argmax_from best best_pos pos (x # xs) =
     (if best < x then argmax_from x pos (Suc pos) xs else argmax_from best best_pos (Suc pos) xs)"

definition argmax :: "('a::ord) list \<Rightarrow> error + nat" where
  "argmax row = (case row of [] \<Rightarrow> Inl IndexError | x # xs \<Rightarrow> Inr (argmax_from x 0 1 xs))"

definition predictions :: "('a::ord) list list \<Rightarrow> error + nat list" where
  "predictions logits = map_err argmax logits"

text \<open>\<^verbatim>\<open>(preds == labels).sum().item()\<close>, for two tensors of one length.\<close>

definition count_correct :: "nat list \<Rightarrow> tensor list \<Rightarrow> error + nat" where
  "count_correct preds batch_labels =
     (if length preds \<noteq> length batch_labels then Inl RuntimeError
      else Inr (length (filter (\<lambda>pl. Tensor0 (int (fst pl)) = snd pl) (zip preds batch_labels))))"

text \<open>
  The running totals of one pass over a loader: the sum of the batch losses
  (\<^verbatim>\<open>total_train_loss\<close>, \<^verbatim>\<open>total_val_loss\<close>), the count of correct predictions and
  the count of examples.
\<close>

record totals =
  total_loss :: real
  total_correct :: nat
  total_examples :: nat

definition totals0 :: totals where
  "totals0 = \<lparr>total_loss = 0, total_correct = 0, total_examples = 0\<rparr>"

definition add_loss :: "totals \<Rightarrow> real \<Rightarrow> totals" where
  "add_loss tot loss = tot\<lparr>total_loss := total_loss tot + loss\<rparr>"

definition add_correct :: "totals \<Rightarrow> ('a::ord) list list \<Rightarrow> tensor list \<Rightarrow> error + totals" where
  "add_correct tot logits batch_labels =
     (case predictions logits of
        Inl e \<Rightarrow> Inl e
      | Inr preds \<Rightarrow>
          (case count_correct preds batch_labels of
             Inl e \<Rightarrow> Inl e
           | Inr correct \<Rightarrow>
               Inr (tot\<lparr>total_correct := total_correct tot + correct,
                        total_examples := total_examples tot + length batch_labels\<rparr>)))"

text \<open>\<^verbatim>\<open>batch[key]\<close>: the rows of one stacked tensor of the batch.\<close>

definition batch_field :: "(string \<times> tensor) list list \<Rightarrow> string \<Rightarrow> error + tensor list" where
  "batch_field batch key = map_err (\<lambda>item. dict_get item key) batch"

text \<open>The body of \<^verbatim>\<open>for batch in train_loader\<close>.\<close>

definition train_batch ::
  "('a, 'o) torch \<Rightarrow> ('a::{zero,plus,times,ord}) CustomBERTModel \<times> 'o optimizer \<times> totals \<Rightarrow>
   (string \<times> tensor) list list \<Rightarrow> error + 'a CustomBERTModel \<times> 'o optimizer \<times> totals" where
  "train_batch T s batch =
     (case s of (m, opt, tot) \<Rightarrow>
      (case batch_field batch ''input_ids'' of Inl e \<Rightarrow> Inl e | Inr input_ids \<Rightarrow>
      (case batch_field batch ''attention_mask'' of Inl e \<Rightarrow> Inl e | Inr attention_mask \<Rightarrow>
      (case batch_field batch ''labels'' of Inl e \<Rightarrow> Inl e | Inr batch_labels \<Rightarrow>
      (let m1 = zero_grad opt m in
      (case forward T m1 input_ids attention_mask of Inl e \<Rightarrow> Inl e | Inr logits \<Rightarrow>
      (let loss = cross_entropy T logits batch_labels;
           m2 = backward T m1 input_ids attention_mask batch_labels;
           (m3, opt3) = step T opt m2
       in (case add_correct (add_loss tot loss) logits batch_labels of
             Inl e \<Rightarrow> Inl e
           | Inr tot' \<Rightarrow> Inr (m3, opt3, tot')))))))))"

fun train_batches ::
  "('a, 'o) torch \<Rightarrow> ('a::{zero,plus,times,ord}) CustomBERTModel \<times> 'o optimizer \<times> totals \<Rightarrow>
   (string \<times> tensor) list list list \<Rightarrow> error + 'a CustomBERTModel \<times> 'o optimizer \<times> totals" where
  "train_batches T s [] = Inr s"
| "train_batches T s (batch # rest) =
     (case train_batch T s batch of Inl e \<Rightarrow> Inl e | Inr s' \<Rightarrow> train_batches T s' rest)"

text \<open>The body of \<^verbatim>\<open>for batch in val_loader\<close>, under \<^verbatim>\<open>torch.no_grad()\<close>.\<close>

definition val_batch ::
  "('a, 'o) torch \<Rightarrow> ('a::{zero,plus,times,ord}) CustomBERTModel \<Rightarrow> totals \<Rightarrow>
   (string \<times> tensor) list list \<Rightarrow> error + totals" where
  "val_batch T m tot batch =
     (case batch_field batch ''input_ids'' of Inl e \<Rightarrow> Inl e | Inr input_ids \<Rightarrow>
     (case batch_field batch ''attention_mask'' of Inl e \<Rightarrow> Inl e | Inr attention_mask \<Rightarrow>
     (case batch_field batch ''labels'' of Inl e \<Rightarrow> Inl e | Inr batch_labels \<Rightarrow>
     (case forward T m input_ids attention_mask of Inl e \<Rightarrow> Inl e | Inr logits \<Rightarrow>
     (let loss = cross_entropy T logits batch_labels
      in add_correct (add_loss tot loss) logits batch_labels)))))"

fun val_batches ::
  "('a, 'o) torch \<Rightarrow> ('a::{zero,plus,times,ord}) CustomBERTModel \<Rightarrow> totals \<Rightarrow>
   (string \<times> tensor) list list list \<Rightarrow> error + totals" where
  "val_batches T m tot [] = Inr tot"
| "val_batches T m tot (batch # rest) =
     (case val_batch T m tot batch of Inl e \<Rightarrow> Inl e | Inr tot' \<Rightarrow> val_batches T m tot' rest)"

text \<open>Python's \<^verbatim>\<open>/\<close> with a count below the line.\<close>

definition py_div :: "real \<Rightarrow> nat \<Rightarrow> error + real" where
  "py_div x n = (if n = 0 then Inl ZeroDivisionError else Inr (x / real n))"

text \<open>What one epoch prints, and the totals of its two passes.\<close>

record report =
  epoch_number :: nat
  of_epochs :: nat
  avg_train_loss :: real
  train_acc :: real
  avg_val_loss :: real
  val_acc :: real

record epoch_log =
  printed :: report
  train_totals :: totals
  val_totals :: totals

definition EPOCHS :: nat where "EPOCHS = 2"

text \<open>The body of \<^verbatim>\<open>for epoch in range(EPOCHS)\<close>; \<open>perm\<close> is the order the train sampler draws in this epoch.\<close>

definition run_epoch ::
  "('a, 'o) torch \<Rightarrow> DataLoader \<Rightarrow> DataLoader \<Rightarrow> nat list \<Rightarrow>
   ('a::{zero,plus,times,ord}) CustomBERTModel \<times> 'o optimizer \<Rightarrow> nat \<Rightarrow>
   error + ('a CustomBERTModel \<times> 'o optimizer) \<times> epoch_log" where
  "run_epoch T trl vl perm s epoch =
     (case s of (m, opt) \<Rightarrow>
      (case loader_iter trl perm of Inl e \<Rightarrow> Inl e | Inr tbs \<Rightarrow>
      (case train_batches T (m\<lparr>training := True\<rparr>, opt, totals0) tbs of Inl e \<Rightarrow> Inl e | Inr (m', opt', tot) \<Rightarrow>
      (case py_div (total_loss tot) (loader_len trl) of Inl e \<Rightarrow> Inl e | Inr train_loss \<Rightarrow>
      (case py_div (real (total_correct tot)) (total_examples tot) of Inl e \<Rightarrow> Inl e | Inr tr_acc \<Rightarrow>
      (case loader_iter vl [] of Inl e \<Rightarrow> Inl e | Inr vbs \<Rightarrow>
      (case val_batches T (m'\<lparr>training := False\<rparr>) totals0 vbs of Inl e \<Rightarrow> Inl e | Inr vtot \<Rightarrow>
      (case py_div (total_loss vtot) (loader_len vl) of Inl e \<Rightarrow> Inl e | Inr val_loss \<Rightarrow>
      (case py_div (real (total_correct vtot)) (total_examples vtot) of Inl e \<Rightarrow> Inl e | Inr v_acc \<Rightarrow>
         Inr ((m'\<lparr>training := False\<rparr>, opt'),
              \<lparr>printed = \<lparr>epoch_number = epoch + 1, of_epochs = EPOCHS, avg_train_loss = train_loss,
                           train_acc = tr_acc, avg_val_loss = val_loss, val_acc = v_acc\<rparr>,
               train_totals = tot, val_totals = vtot\<rparr>))))))))))"

fun epochs_loop ::
  "('a, 'o) torch \<Rightarrow> DataLoader \<Rightarrow> DataLoader \<Rightarrow> (nat \<Rightarrow> nat list) \<Rightarrow>
   ('a::{zero,plus,times,ord}) CustomBERTModel \<times> 'o optimizer \<Rightarrow> epoch_log list \<Rightarrow> nat list \<Rightarrow>
   error + ('a CustomBERTModel \<times> 'o optimizer) \<times> epoch_log list" where
  "epochs_loop T trl vl perms s logs [] = Inr (s, logs)"
| "epochs_loop T trl vl perms s logs (epoch # rest) =
     (case run_epoch T trl vl (perms epoch) s epoch of
        Inl e \<Rightarrow> Inl e
      | Inr (s', elog) \<Rightarrow> epochs_loop T trl vl perms s' (logs @ [elog]) rest)"

definition training_loop ::
  "('a, 'o) torch \<Rightarrow> DataLoader \<Rightarrow> DataLoader \<Rightarrow> (nat \<Rightarrow> nat list) \<Rightarrow>
   ('a::{zero,plus,times,ord}) CustomBERTModel \<times> 'o optimizer \<Rightarrow>
   error + ('a CustomBERTModel \<times> 'o optimizer) \<times> epoch_log list" where
  "training_loop T trl vl perms s = epochs_loop T trl vl perms s [] [0..<EPOCHS]"

subsection \<open>Cell 11: test accuracy\<close>

definition test_batch ::
  "('a, 'o) torch \<Rightarrow> ('a::{zero,plus,times,ord}) CustomBERTModel \<Rightarrow> totals \<Rightarrow>
   (string \<times> tensor) list list \<Rightarrow> error + totals" where
  "test_batch T m tot batch =
     (case batch_field batch ''input_ids'' of Inl e \<Rightarrow> Inl e | Inr input_ids \<Rightarrow>
     (case batch_field batch ''attention_mask'' of Inl e \<Rightarrow> Inl e | Inr attention_mask \<Rightarrow>
     (case batch_field batch ''labels'' of Inl e \<Rightarrow> Inl e | Inr batch_labels \<Rightarrow>
     (case forward T m input_ids attention_mask of Inl e \<Rightarrow> Inl e | Inr logits \<Rightarrow>
        add_correct tot logits batch_labels))))"

fun test_batches ::
  "('a, 'o) torch \<Rightarrow> ('a::{zero,plus,times,ord}) CustomBERTModel \<Rightarrow> totals \<Rightarrow>
   (string \<times> tensor) list list list \<Rightarrow> error + totals" where
  "test_batches T m tot [] = Inr tot"
| "test_batches T m tot (batch # rest) =
     (case test_batch T m tot batch of Inl e \<Rightarrow> Inl e | Inr tot' \<Rightarrow> test_batches T m tot' rest)"

text \<open>The cell's result: the printed accuracy, with the totals of the pass.\<close>

definition test_evaluation ::
  "('a, 'o) torch \<Rightarrow> ('a::{zero,plus,times,ord}) CustomBERTModel \<Rightarrow> DataLoader \<Rightarrow> error + real \<times> totals" where
  "test_evaluation T m tsl =
     (case loader_iter tsl [] of Inl e \<Rightarrow> Inl e | Inr bs \<Rightarrow>
     (case test_batches T (m\<lparr>training := False\<rparr>) totals0 bs of Inl e \<Rightarrow> Inl e | Inr tot \<Rightarrow>
     (case py_div (real (total_correct tot)) (total_examples tot) of Inl e \<Rightarrow> Inl e | Inr test_acc \<Rightarrow>
        Inr (test_acc, tot))))"

subsection \<open>Cell 12: inference on example texts\<close>

definition example_texts :: "string list" where
  "example_texts =
     [''This movie was absolutely wonderful! The acting was incredible and I loved it.'',
      ''Terrible film. The script was awful and the characters were boring.'']"

definition sentiment :: "nat \<Rightarrow> string" where
  "sentiment pred = (if pred = 1 then ''POSITIVE'' else ''NEGATIVE'')"

text \<open>The cell's result: the predictions, and for each text the sentiment printed with it.\<close>

definition inference ::
  "(string \<Rightarrow> int list) \<Rightarrow> ('a, 'o) torch \<Rightarrow> ('a::{zero,plus,times,ord}) CustomBERTModel \<Rightarrow> string list \<Rightarrow>
   error + nat list \<times> (string \<times> string) list" where
  "inference wordpiece T m texts =
     (let tokens = tokenizer wordpiece texts 256 MaxLength True in
      (case dict_get tokens ''input_ids'' of Inl e \<Rightarrow> Inl e | Inr input_ids \<Rightarrow>
      (case dict_get tokens ''attention_mask'' of Inl e \<Rightarrow> Inl e | Inr attention_mask \<Rightarrow>
      (case forward T (m\<lparr>training := False\<rparr>) (map Tensor1 input_ids) (map Tensor1 attention_mask) of
         Inl e \<Rightarrow> Inl e
       | Inr logits \<Rightarrow>
      (case predictions logits of Inl e \<Rightarrow> Inl e | Inr preds \<Rightarrow>
         Inr (preds, map (\<lambda>tp. (fst tp, sentiment (snd tp))) (zip texts preds)))))))"

subsection \<open>Notions used to state the properties\<close>

text \<open>An example, given by its row of logits and its label, whose argmax equals the label.\<close>

definition hit :: "('a::ord) list \<times> tensor \<Rightarrow> bool" where
  "hit rl = (case argmax (fst rl) of Inl e \<Rightarrow> False | Inr p \<Rightarrow> Tensor0 (int p) = snd rl)"

text \<open>The accuracy over a list of examples: the number of hits divided by the number of examples.\<close>

definition accuracy :: "(('a::ord) list \<times> tensor) list \<Rightarrow> real" where
  "accuracy examples = real (length (filter hit examples)) / real (length examples)"

text \<open>The arithmetic mean.\<close>

definition mean :: "real list \<Rightarrow> real" where
  "mean xs = sum_list xs / real (length xs)"

text \<open>A dataset whose encodings hold the two fields that the loops read.\<close>

definition has_fields :: "IMDbDataset \<Rightarrow> bool" where
  "has_fields ds =
     (''input_ids'' \<in> fst ` set (encodings ds) \<and> ''attention_mask'' \<in> fst ` set (encodings ds))"

text \<open>A batch of which the loops can read their three fields.\<close>

definition readable :: "(string \<times> tensor) list list \<Rightarrow> bool" where
  "readable batch =
     ((\<exists>ts. batch_field batch ''input_ids'' = Inr ts) \<and>
      (\<exists>ts. batch_field batch ''attention_mask'' = Inr ts) \<and>
      (\<exists>ts. batch_field batch ''labels'' = Inr ts))"

subsection \<open>What the loops are to compute\<close>

text \<open>
  The definitions of this section follow the description of the program, not its code:
  they say what a pass over a loader is to compute, and the loops of the notebook are
  compared with them.

  The three tensors of a batch.
\<close>

definition batch_tensors ::
  "(string \<times> tensor) list list \<Rightarrow> error + tensor list \<times> tensor list \<times> tensor list" where
  "batch_tensors batch =
     (case batch_field batch ''input_ids'' of Inl e \<Rightarrow> Inl e | Inr input_ids \<Rightarrow>
     (case batch_field batch ''attention_mask'' of Inl e \<Rightarrow> Inl e | Inr attention_mask \<Rightarrow>
     (case batch_field batch ''labels'' of Inl e \<Rightarrow> Inl e | Inr batch_labels \<Rightarrow>
        Inr (input_ids, attention_mask, batch_labels))))"

text \<open>
  What a model gives on a batch: its logits for the examples of the batch, from their
  token ids and attention masks, beside the labels of these examples, and the
  cross-entropy loss of the logits against the labels.
\<close>

record 'a outcome =
  logits_of :: "'a list list"
  labels_of :: "tensor list"
  loss_of :: real

definition batch_outcome ::
  "('a, 'o) torch \<Rightarrow> ('a::{zero,plus,times,ord}) CustomBERTModel \<Rightarrow> (string \<times> tensor) list list \<Rightarrow>
   error + 'a outcome" where
  "batch_outcome T m batch =
     (case batch_tensors batch of
        Inl e \<Rightarrow> Inl e
      | Inr (input_ids, attention_mask, batch_labels) \<Rightarrow>
          (case forward T m input_ids attention_mask of
             Inl e \<Rightarrow> Inl e
           | Inr logits \<Rightarrow>
               Inr \<lparr>logits_of = logits, labels_of = batch_labels,
                    loss_of = cross_entropy T logits batch_labels\<rparr>))"

text \<open>The examples of a pass, each with its logits and its label, in the order of the pass.\<close>

definition examples_of :: "'a outcome list \<Rightarrow> ('a list \<times> tensor) list" where
  "examples_of outcomes = concat (map (\<lambda>out. zip (logits_of out) (labels_of out)) outcomes)"

text \<open>
  A training step on the tensors of a batch. The gradient of the batch's loss is taken
  on the model whose old gradients are cleared. Every trainable parameter, one after the
  other, then holds that gradient and takes Adam's new value; no other parameter changes.
  The optimizer has made one more step.
\<close>

definition clear_grad :: "'a Parameter \<Rightarrow> 'a Parameter" where
  "clear_grad p = (if requires_grad p then p\<lparr>grad := None\<rparr> else p)"

fun clear_module :: "'a Module \<Rightarrow> 'a Module" where
  "clear_module (Linear n_in n_out w b) = Linear n_in n_out (clear_grad w) (clear_grad b)"
| "clear_module ReLU = ReLU"

definition cleared :: "'a CustomBERTModel \<Rightarrow> 'a CustomBERTModel" where
  "cleared m = m\<lparr>bert := map clear_grad (bert m), classifier := map clear_module (classifier m)\<rparr>"

definition train_param ::
  "('a, 'o) torch \<Rightarrow> (ref \<Rightarrow> 'a entries) \<Rightarrow> ref \<Rightarrow> 'a CustomBERTModel \<times> 'o \<Rightarrow> 'a CustomBERTModel \<times> 'o" where
  "train_param T g r ms =
     (case get_param (fst ms) r of
        None \<Rightarrow> ms
      | Some p \<Rightarrow>
          (let (d, s) = adam_update T (snd ms) r (data p) (g r)
           in (map_param (\<lambda>q. q\<lparr>data := d, grad := Some (g r)\<rparr>) r (fst ms), s)))"

definition training_step ::
  "('a, 'o) torch \<Rightarrow> 'a CustomBERTModel \<times> 'o optimizer \<Rightarrow> tensor list \<Rightarrow> tensor list \<Rightarrow> tensor list \<Rightarrow>
   'a CustomBERTModel \<times> 'o optimizer" where
  "training_step T s input_ids attention_mask batch_labels =
     (case s of (m, opt) \<Rightarrow>
      (let g = autograd T (cleared m) input_ids attention_mask batch_labels;
           (m', st) = fold (train_param T g) (trainable_params m) (m, state opt)
       in (m', opt\<lparr>state := st, step_count := step_count opt + 1\<rparr>)))"

text \<open>
  A training pass: batch after batch, the outcome of the model as it stands, then a
  training step on the batch.
\<close>

fun training_pass ::
  "('a, 'o) torch \<Rightarrow> ('a::{zero,plus,times,ord}) CustomBERTModel \<times> 'o optimizer \<Rightarrow>
   (string \<times> tensor) list list list \<Rightarrow> error + ('a CustomBERTModel \<times> 'o optimizer) \<times> 'a outcome list" where
  "training_pass T s [] = Inr (s, [])"
| "training_pass T s (batch # rest) =
     (case batch_outcome T (fst s) batch of Inl e \<Rightarrow> Inl e | Inr out \<Rightarrow>
     (case batch_tensors batch of Inl e \<Rightarrow> Inl e | Inr (input_ids, attention_mask, batch_labels) \<Rightarrow>
     (case training_pass T (training_step T s input_ids attention_mask batch_labels) rest of
        Inl e \<Rightarrow> Inl e
      | Inr (s', outs) \<Rightarrow> Inr (s', out # outs))))"

text \<open>An evaluation pass: the outcome of one model on every batch.\<close>

definition evaluation_pass ::
  "('a, 'o) torch \<Rightarrow> ('a::{zero,plus,times,ord}) CustomBERTModel \<Rightarrow>
   (string \<times> tensor) list list list \<Rightarrow> error + 'a outcome list" where
  "evaluation_pass T m batches = map_err (batch_outcome T m) batches"

text \<open>
  What epoch number \<open>n\<close> is to report, from the outcomes of its training pass and of its
  validation pass: for each, the mean of the batch losses and the accuracy over the
  examples.
\<close>

definition epoch_report :: "nat \<Rightarrow> ('a::ord) outcome list \<Rightarrow> 'a outcome list \<Rightarrow> report" where
  "epoch_report n train_outcomes val_outcomes =
     \<lparr>epoch_number = n, of_epochs = 2,
      avg_train_loss = mean (map loss_of train_outcomes),
      train_acc = accuracy (examples_of train_outcomes),
      avg_val_loss = mean (map loss_of val_outcomes),
      val_acc = accuracy (examples_of val_outcomes)\<rparr>"

subsection \<open>Concrete inputs\<close>

text \<open>A dataset of two tokenized examples.\<close>

definition ds_example :: IMDbDataset where
  "ds_example = \<lparr>encodings = [(''input_ids'', [[101, 7, 102], [101, 9, 102]]),
                               (''attention_mask'', [[1, 1, 1], [1, 1, 1]])],
                  labels = [0, 1]\<rparr>"

text \<open>
  A numerical library over the integers whose encoder returns rows of zeros, and a model
  with one encoder parameter and a classifier of zero weights.
\<close>

definition torch0 :: "(int, unit) torch" where
  "torch0 =
     \<lparr>bert_forward = (\<lambda>tr \<theta> input_ids attention_mask. map (\<lambda>x. replicate 768 0) input_ids),
      cross_entropy = (\<lambda>logits batch_labels. real (length logits)),
      autograd = (\<lambda>m input_ids attention_mask batch_labels r ix. 1),
      accumulate = (\<lambda>g h ix. g ix + h ix),
      adam_update = (\<lambda>s r d g. ((\<lambda>ix. d ix - g ix), s))\<rparr>"

definition model0 :: "int CustomBERTModel" where
  "model0 =
     CustomBERTModel_init [\<lparr>data = (\<lambda>ix. 5), requires_grad = True, grad = None\<rparr>]
       (\<lambda>k ix. 0) (\<lambda>k ix. 0) 2"

definition wordpiece0 :: "string \<Rightarrow> int list" where
  "wordpiece0 t = replicate (length t) 2000"

text \<open>A dataset of ten tokenized examples.\<close>

definition ds_ten :: IMDbDataset where
  "ds_ten = \<lparr>encodings = [(''input_ids'', replicate 10 [101, 102]),
                           (''attention_mask'', replicate 10 [1, 1])],
             labels = [0, 1, 0, 1, 0, 1, 0, 1, 0, 1]\<rparr>"


section \<open>Properties\<close>

subsection \<open>Device selection\<close>

text \<open>
  C10. The device is 'cuda' when CUDA is available and 'mps' in every other case; it is
  never 'cpu', so a machine with neither CUDA nor MPS still gets 'mps'.
\<close>

theorem device_never_cpu:
  "device mc = (if cuda_is_available mc then ''cuda'' else ''mps'') \<and> device mc \<noteq> ''cpu''"
  by (simp add: device_def)

theorem device_never_cpu_witness:
  "\<not> cuda_is_available \<lparr>cuda_is_available = False, mps_is_available = False\<rparr> \<and>
   \<not> mps_is_available \<lparr>cuda_is_available = False, mps_is_available = False\<rparr> \<and>
   device \<lparr>cuda_is_available = False, mps_is_available = False\<rparr> = ''mps'' \<and>
   device \<lparr>cuda_is_available = False, mps_is_available = False\<rparr> \<noteq> ''cpu''"
  using device_never_cpu [of "\<lparr>cuda_is_available = False, mps_is_available = False\<rparr>"]
  by simp

subsection \<open>IMDbDataset\<close>

lemma map_of_dict_set: "map_of (dict_set d k v) k' = (if k' = k then Some v else map_of d k')"
  by (induction d k v rule: dict_set.induct) auto

lemma keys_dict_set: "fst ` set (dict_set d k v) = insert k (fst ` set d)"
  by (induction d k v rule: dict_set.induct) auto

lemma py_getitem_in_range:
  "0 \<le> i \<Longrightarrow> i < int (length xs) \<Longrightarrow> py_getitem xs i = Inr (xs ! nat i)"
  by (simp add: py_getitem_def)

lemma py_getitem_beyond:
  "0 \<le> i \<Longrightarrow> int (length xs) \<le> i \<Longrightarrow> py_getitem xs i = Inl IndexError"
  by (simp add: py_getitem_def)

lemma item_of_encodings_ok:
  "0 \<le> idx \<Longrightarrow> \<forall>kv\<in>set kvs. idx < int (length (snd kv)) \<Longrightarrow>
   \<exists>r. item_of_encodings item kvs idx = Inr r"
  by (induction item kvs idx rule: item_of_encodings.induct) (auto simp: py_getitem_in_range)

lemma item_of_encodings_fails:
  "0 \<le> idx \<Longrightarrow> (k, v) \<in> set kvs \<Longrightarrow> int (length v) \<le> idx \<Longrightarrow>
   \<exists>e. item_of_encodings item kvs idx = Inl e"
  by (induction item kvs idx rule: item_of_encodings.induct)
     (auto simp: py_getitem_beyond split: sum.splits)

lemma item_of_encodings_lookup:
  "0 \<le> idx \<Longrightarrow> distinct (map fst kvs) \<Longrightarrow> item_of_encodings item kvs idx = Inr r \<Longrightarrow>
   map_of r k = (case map_of kvs k of Some v \<Rightarrow> Some (Tensor1 (v ! nat idx)) | None \<Rightarrow> map_of item k)"
proof (induction item kvs idx rule: item_of_encodings.induct)
  case (1 item idx)
  then show ?case by simp
next
  case (2 item k' v kvs idx)
  from "2.prems" obtain row where row: "py_getitem v idx = Inr row"
    and rest: "item_of_encodings (dict_set item k' (Tensor1 row)) kvs idx = Inr r"
    by (auto split: sum.splits)
  from row "2.prems"(1) have row_eq: "row = v ! nat idx"
    by (auto simp: py_getitem_def split: if_splits)
  from "2.prems" have d: "distinct (map fst kvs)" and notin: "k' \<notin> fst ` set kvs" by auto
  have ih: "map_of r k = (case map_of kvs k of Some v \<Rightarrow> Some (Tensor1 (v ! nat idx))
                          | None \<Rightarrow> map_of (dict_set item k' (Tensor1 row)) k)"
    using "2.IH" [OF row "2.prems"(1) d rest] .
  show ?case
  proof (cases "k = k'")
    case True
    with notin have "map_of kvs k = None" by (simp add: map_of_eq_None_iff)
    with ih True row_eq show ?thesis by (simp add: map_of_dict_set)
  next
    case False
    with ih show ?thesis by (simp add: map_of_dict_set split: option.splits)
  qed
qed

lemma item_of_encodings_keys:
  "item_of_encodings item kvs idx = Inr r \<Longrightarrow> fst ` set r = fst ` set item \<union> fst ` set kvs"
  by (induction item kvs idx rule: item_of_encodings.induct)
     (auto simp: keys_dict_set split: sum.splits)

lemma getitem_ok:
  assumes d: "distinct (map fst (encodings ds))" and c: "encodings_cover ds"
    and i0: "0 \<le> idx" and i1: "idx < int (len ds)"
  shows "\<exists>item. getitem ds idx = Inr item \<and>
           map_of item ''labels'' = Some (Tensor0 (labels ds ! nat idx)) \<and>
           (\<forall>kv\<in>set (encodings ds). fst kv \<noteq> ''labels'' \<longrightarrow>
               map_of item (fst kv) = Some (Tensor1 (snd kv ! nat idx))) \<and>
           fst ` set item = insert ''labels'' (fst ` set (encodings ds))"
proof -
  from c i1 have "\<forall>kv\<in>set (encodings ds). idx < int (length (snd kv))"
    by (auto simp: encodings_cover_def len_def list_all_iff)
  with i0 obtain r where r: "item_of_encodings [] (encodings ds) idx = Inr r"
    using item_of_encodings_ok by blast
  from i0 i1 have l: "py_getitem (labels ds) idx = Inr (labels ds ! nat idx)"
    by (simp add: py_getitem_in_range len_def)
  let ?item = "dict_set r ''labels'' (Tensor0 (labels ds ! nat idx))"
  have g: "getitem ds idx = Inr ?item"
    by (simp add: getitem_def r l)
  have lab: "map_of ?item ''labels'' = Some (Tensor0 (labels ds ! nat idx))"
    by (simp add: map_of_dict_set)
  have enc: "map_of ?item (fst kv) = Some (Tensor1 (snd kv ! nat idx))"
    if "kv \<in> set (encodings ds)" "fst kv \<noteq> ''labels''" for kv
  proof -
    have "map_of (encodings ds) (fst kv) = Some (snd kv)"
      using map_of_is_SomeI [OF d, of "fst kv" "snd kv"] that(1) by simp
    with item_of_encodings_lookup [OF i0 d r, of "fst kv"] that(2)
    show ?thesis by (simp add: map_of_dict_set)
  qed
  have keys: "fst ` set ?item = insert ''labels'' (fst ` set (encodings ds))"
    using item_of_encodings_keys [OF r] by (simp add: keys_dict_set)
  from g lab enc keys show ?thesis by blast
qed

lemma getitem_fails:
  assumes nc: "\<not> encodings_cover ds"
  shows "\<exists>idx e. 0 \<le> idx \<and> idx < int (len ds) \<and> getitem ds idx = Inl e"
proof -
  from nc obtain k v where kv: "(k, v) \<in> set (encodings ds)" and short: "length v < length (labels ds)"
    by (auto simp: encodings_cover_def list_all_iff not_le)
  let ?idx = "int (length (labels ds)) - 1"
  from short have a: "0 \<le> ?idx" and b: "?idx < int (len ds)" and c: "int (length v) \<le> ?idx"
    by (auto simp: len_def)
  from item_of_encodings_fails [OF a kv c] obtain e
    where "item_of_encodings [] (encodings ds) ?idx = Inl e" by blast
  then have "getitem ds ?idx = Inl e" by (simp add: getitem_def)
  with a b show ?thesis by blast
qed

text \<open>
  C9. The length of an IMDbDataset is the number of its labels, whatever the lengths of
  the encoding lists. For an index from 0 up to that length, \<open>getitem\<close> returns a dict
  that holds, for every key of the encodings, the tensor of that key's entry at the
  index, and under 'labels' the label at the index. Every such index is in bounds
  exactly when every encoding list has at least as many entries as there are labels.
\<close>

theorem IMDbDataset_len_getitem:
  assumes d: "distinct (map fst (encodings ds))"
  shows "len ds = length (labels ds) \<and>
    (encodings_cover ds \<longleftrightarrow>
       (\<forall>idx. 0 \<le> idx \<and> idx < int (len ds) \<longrightarrow> (\<exists>item. getitem ds idx = Inr item))) \<and>
    (encodings_cover ds \<longrightarrow>
       (\<forall>idx. 0 \<le> idx \<and> idx < int (len ds) \<longrightarrow>
          (\<exists>item. getitem ds idx = Inr item \<and>
             map_of item ''labels'' = Some (Tensor0 (labels ds ! nat idx)) \<and>
             (\<forall>kv\<in>set (encodings ds). fst kv \<noteq> ''labels'' \<longrightarrow>
                 map_of item (fst kv) = Some (Tensor1 (snd kv ! nat idx))) \<and>
             fst ` set item = insert ''labels'' (fst ` set (encodings ds)))))"
proof (intro conjI)
  show "len ds = length (labels ds)" by (simp add: len_def)
next
  show "encodings_cover ds \<longleftrightarrow>
       (\<forall>idx. 0 \<le> idx \<and> idx < int (len ds) \<longrightarrow> (\<exists>item. getitem ds idx = Inr item))"
  proof
    assume "encodings_cover ds"
    with getitem_ok [OF d] show "\<forall>idx. 0 \<le> idx \<and> idx < int (len ds) \<longrightarrow> (\<exists>item. getitem ds idx = Inr item)"
      by blast
  next
    assume all: "\<forall>idx. 0 \<le> idx \<and> idx < int (len ds) \<longrightarrow> (\<exists>item. getitem ds idx = Inr item)"
    show "encodings_cover ds"
    proof (rule ccontr)
      assume "\<not> encodings_cover ds"
      from getitem_fails [OF this] all show False by force
    qed
  qed
next
  show "encodings_cover ds \<longrightarrow>
       (\<forall>idx. 0 \<le> idx \<and> idx < int (len ds) \<longrightarrow>
          (\<exists>item. getitem ds idx = Inr item \<and>
             map_of item ''labels'' = Some (Tensor0 (labels ds ! nat idx)) \<and>
             (\<forall>kv\<in>set (encodings ds). fst kv \<noteq> ''labels'' \<longrightarrow>
                 map_of item (fst kv) = Some (Tensor1 (snd kv ! nat idx))) \<and>
             fst ` set item = insert ''labels'' (fst ` set (encodings ds))))"
    using getitem_ok [OF d] by blast
qed

theorem IMDbDataset_len_getitem_witness:
  "distinct (map fst (encodings ds_example)) \<and> encodings_cover ds_example \<and>
   len ds_example = 2 \<and>
   getitem ds_example 1 =
     Inr [(''input_ids'', Tensor1 [101, 9, 102]), (''attention_mask'', Tensor1 [1, 1, 1]),
          (''labels'', Tensor0 1)] \<and>
   (\<exists>item. getitem ds_example 1 = Inr item \<and>
      map_of item ''labels'' = Some (Tensor0 (labels ds_example ! nat 1)) \<and>
      (\<forall>kv\<in>set (encodings ds_example). fst kv \<noteq> ''labels'' \<longrightarrow>
          map_of item (fst kv) = Some (Tensor1 (snd kv ! nat 1))) \<and>
      fst ` set item = insert ''labels'' (fst ` set (encodings ds_example)))"
proof -
  have d: "distinct (map fst (encodings ds_example))"
    by (simp add: ds_example_def)
  have c: "encodings_cover ds_example"
    by (simp add: ds_example_def encodings_cover_def)
  have g: "getitem ds_example 1 =
     Inr [(''input_ids'', Tensor1 [101, 9, 102]), (''attention_mask'', Tensor1 [1, 1, 1]),
          (''labels'', Tensor0 1)]"
    by (simp add: ds_example_def getitem_def py_getitem_def)
  have l: "len ds_example = 2" by (simp add: ds_example_def len_def)
  have r: "0 \<le> (1::int) \<and> 1 < int (len ds_example)" by (simp add: l)
  note post = IMDbDataset_len_getitem [OF d, THEN conjunct2, THEN conjunct2, THEN mp, OF c,
      THEN spec, THEN mp, OF r]
  show ?thesis
    by (intro conjI d c l g post)
qed

text \<open>An encoding list shorter than the labels: the index of the second label is out of range.\<close>

lemma getitem_short_encoding:
  "getitem \<lparr>encodings = [(''input_ids'', [[101, 7, 102]])], labels = [0, 1]\<rparr> 1 = Inl IndexError"
  by (simp add: getitem_def py_getitem_def)

subsection \<open>Lists of results, argmax, and the shapes of the classifier\<close>

lemma map_err_Inr_iff: "map_err f xs = Inr ys \<longleftrightarrow> map f xs = map Inr ys"
proof (induction xs arbitrary: ys)
  case Nil
  then show ?case by auto
next
  case (Cons x xs)
  show ?case
  proof (cases "f x")
    case (Inl e)
    then show ?thesis by (cases ys) auto
  next
    case (Inr y)
    show ?thesis
    proof (cases "map_err f xs")
      case (Inl e)
      with Cons.IH have "\<And>zs. map f xs \<noteq> map Inr zs" by simp
      with Inl Inr show ?thesis by (cases ys) auto
    next
      case (Inr zs)
      with Cons.IH [of zs] have "map f xs = map Inr zs" by simp
      moreover have "inj (Inr :: 'b \<Rightarrow> 'c + 'b)" by (simp add: inj_def)
      ultimately show ?thesis using \<open>f x = Inr y\<close> Inr
        by (cases ys) (auto simp: inj_map_eq_map)
    qed
  qed
qed

lemma map_err_length: "map_err f xs = Inr ys \<Longrightarrow> length ys = length xs"
  by (drule map_err_Inr_iff [THEN iffD1], drule arg_cong [where f = length]) simp

lemma map_err_nth:
  assumes "map_err f xs = Inr ys" and "i < length xs"
  shows "f (xs ! i) = Inr (ys ! i)"
proof -
  from assms(1) have eq: "map f xs = map Inr ys" by (simp add: map_err_Inr_iff)
  have len: "length ys = length xs" by (rule map_err_length [OF assms(1)])
  from eq have "map f xs ! i = map Inr ys ! i" by simp
  with assms(2) len show ?thesis by simp
qed

lemma map_err_total:
  "list_all (\<lambda>x. \<exists>y. f x = Inr y) xs \<Longrightarrow> \<exists>ys. map_err f xs = Inr ys"
  by (induction xs) auto

lemma map_err_all:
  "map_err f xs = Inr ys \<Longrightarrow> \<forall>x\<in>set xs. \<forall>y. f x = Inr y \<longrightarrow> P y \<Longrightarrow> list_all P ys"
  by (induction xs arbitrary: ys) (auto split: sum.splits)

lemma argmax_from_bound: "best_pos < pos \<Longrightarrow> argmax_from best best_pos pos xs < pos + length xs"
  by (induction best best_pos pos xs rule: argmax_from.induct) auto

lemma argmax_Inr_iff: "(\<exists>p. argmax row = Inr p) \<longleftrightarrow> row \<noteq> []"
  by (cases row) (auto simp: argmax_def)

lemma argmax_less: "argmax row = Inr p \<Longrightarrow> p < length row"
  using argmax_from_bound [of 0 1]
  by (cases row) (auto simp: argmax_def less_Suc_eq_le dest: Suc_leI)

lemma argmax_two: "argmax [a, b] = Inr (if a < b then 1 else 0)"
  by (simp add: argmax_def)

lemma argmax_from_first_max:
  fixes best :: "'a::linorder"
  assumes "length pre = pos" and "best_pos < pos" and "(pre @ xs) ! best_pos = best"
    and "\<forall>q<pos. (pre @ xs) ! q \<le> best" and "\<forall>q<best_pos. (pre @ xs) ! q < best"
  shows "argmax_from best best_pos pos xs < length (pre @ xs) \<and>
         (\<forall>q<length (pre @ xs). (pre @ xs) ! q \<le> (pre @ xs) ! argmax_from best best_pos pos xs) \<and>
         (\<forall>q<argmax_from best best_pos pos xs. (pre @ xs) ! q < (pre @ xs) ! argmax_from best best_pos pos xs)"
  using assms
proof (induction xs arbitrary: pre pos best best_pos)
  case Nil
  then show ?case by auto
next
  case (Cons x xs)
  let ?ys = "pre @ x # xs"
  have ys: "?ys = (pre @ [x]) @ xs" by simp
  have xpos: "?ys ! pos = x" using Cons.prems(1) by (simp add: nth_append)
  show ?case
  proof (cases "best < x")
    case True
    have 1: "length (pre @ [x]) = Suc pos" using Cons.prems(1) by simp
    have 2: "pos < Suc pos" by simp
    have 3: "((pre @ [x]) @ xs) ! pos = x" using xpos by simp
    have 4: "\<forall>q<Suc pos. ((pre @ [x]) @ xs) ! q \<le> x"
    proof (intro allI impI)
      fix q assume "q < Suc pos"
      then consider "q < pos" | "q = pos" by linarith
      then show "((pre @ [x]) @ xs) ! q \<le> x"
      proof cases
        case 1
        with Cons.prems(4) have "?ys ! q \<le> best" by simp
        with True show ?thesis by simp
      next
        case 2
        with xpos show ?thesis by simp
      qed
    qed
    have 5: "\<forall>q<pos. ((pre @ [x]) @ xs) ! q < x"
    proof (intro allI impI)
      fix q assume "q < pos"
      with Cons.prems(4) have "?ys ! q \<le> best" by simp
      with True show "((pre @ [x]) @ xs) ! q < x" by simp
    qed
    from Cons.IH [OF 1 2 3 4 5] True show ?thesis by simp
  next
    case False
    have 1: "length (pre @ [x]) = Suc pos" using Cons.prems(1) by simp
    have 2: "best_pos < Suc pos" using Cons.prems(2) by simp
    have 3: "((pre @ [x]) @ xs) ! best_pos = best" using Cons.prems(3) by simp
    have 4: "\<forall>q<Suc pos. ((pre @ [x]) @ xs) ! q \<le> best"
    proof (intro allI impI)
      fix q assume "q < Suc pos"
      then consider "q < pos" | "q = pos" by linarith
      then show "((pre @ [x]) @ xs) ! q \<le> best"
      proof cases
        case 1
        with Cons.prems(4) show ?thesis by simp
      next
        case 2
        with xpos False show ?thesis by simp
      qed
    qed
    have 5: "\<forall>q<best_pos. ((pre @ [x]) @ xs) ! q < best" using Cons.prems(5) by simp
    from Cons.IH [OF 1 2 3 4 5] False show ?thesis by simp
  qed
qed

text \<open>Over a linear order, \<open>argmax\<close> is the position of the first greatest entry.\<close>

lemma argmax_first_greatest:
  fixes row :: "('a::linorder) list"
  assumes "argmax row = Inr p"
  shows "p < length row \<and> (\<forall>q<length row. row ! q \<le> row ! p) \<and> (\<forall>q<p. row ! q < row ! p)"
proof (cases row)
  case Nil
  with assms show ?thesis by (simp add: argmax_def)
next
  case (Cons x xs)
  with assms have p: "p = argmax_from x 0 1 xs" by (simp add: argmax_def)
  have "argmax_from x 0 1 xs < length ([x] @ xs) \<and>
         (\<forall>q<length ([x] @ xs). ([x] @ xs) ! q \<le> ([x] @ xs) ! argmax_from x 0 1 xs) \<and>
         (\<forall>q<argmax_from x 0 1 xs. ([x] @ xs) ! q < ([x] @ xs) ! argmax_from x 0 1 xs)"
    by (rule argmax_from_first_max) simp_all
  with p Cons show ?thesis by simp
qed

lemma sentiment_iff:
  "(sentiment p = ''POSITIVE'') = (p = 1) \<and> (sentiment p = ''NEGATIVE'') = (p \<noteq> 1)"
  by (simp add: sentiment_def)


lemma linear_row_ok:
  "length x = n_in \<Longrightarrow> \<exists>y. linear_row n_in n_out w b x = Inr y \<and> length y = n_out"
  by (simp add: linear_row_def)

lemma module_forward_Linear:
  assumes "list_all (\<lambda>row. length row = n_in) rows"
  shows "\<exists>rows'. module_forward (Linear n_in n_out w b) rows = Inr rows' \<and>
           length rows' = length rows \<and> list_all (\<lambda>row. length row = n_out) rows'"
proof -
  from assms have "list_all (\<lambda>x. \<exists>y. linear_row n_in n_out (data w) (data b) x = Inr y) rows"
    by (auto simp: list_all_iff linear_row_def)
  then obtain rows' where r: "map_err (linear_row n_in n_out (data w) (data b)) rows = Inr rows'"
    using map_err_total by blast
  have "list_all (\<lambda>row. length row = n_out) rows'"
    by (rule map_err_all [OF r]) (auto simp: linear_row_def split: if_splits)
  with r map_err_length [OF r] show ?thesis by simp
qed

lemma module_forward_ReLU:
  "list_all (\<lambda>row. length row = n) rows \<Longrightarrow>
   \<exists>rows'. module_forward ReLU rows = Inr rows' \<and>
           length rows' = length rows \<and> list_all (\<lambda>row. length row = n) rows'"
  by (simp add: relu_row_def list_all_iff)

lemma module_forward_length:
  "module_forward md rows = Inr out \<Longrightarrow> length out = length rows"
  by (cases md) (auto dest: map_err_length)

lemma module_forward_row:
  assumes "module_forward md rows = Inr out" and "i < length rows"
  shows "module_forward md [rows ! i] = Inr [out ! i]"
proof (cases md)
  case (Linear n_in n_out w b)
  with assms(1) have "map_err (linear_row n_in n_out (data w) (data b)) rows = Inr out" by simp
  from map_err_nth [OF this assms(2)] Linear show ?thesis by simp
next
  case ReLU
  with assms show ?thesis by auto
qed

lemma sequential_forward_length:
  "sequential_forward mds rows = Inr out \<Longrightarrow> length out = length rows"
  by (induction mds arbitrary: rows) (auto split: sum.splits dest: module_forward_length)

lemma sequential_forward_row:
  "sequential_forward mds rows = Inr out \<Longrightarrow> i < length rows \<Longrightarrow>
   sequential_forward mds [rows ! i] = Inr [out ! i]"
proof (induction mds arbitrary: rows)
  case Nil
  then show ?case by simp
next
  case (Cons md mds)
  from Cons.prems(1) obtain mid where mid: "module_forward md rows = Inr mid"
    and rest: "sequential_forward mds mid = Inr out"
    by (auto split: sum.splits)
  from module_forward_length [OF mid] Cons.prems(2) have i: "i < length mid" by simp
  from module_forward_row [OF mid Cons.prems(2)] Cons.IH [OF rest i]
  show ?case by simp
qed

lemma kind_of_Linear: "kind_of md = LinearLayer n_in n_out \<Longrightarrow> \<exists>w b. md = Linear n_in n_out w b"
  by (cases md) auto

lemma kind_of_ReLU: "kind_of md = ReLULayer \<Longrightarrow> md = ReLU"
  by (cases md) auto

lemma head_forward:
  assumes rows: "list_all (\<lambda>row. length row = 768) rows"
  shows "\<exists>logits.
     sequential_forward
       [Linear 768 512 w1 b1, ReLU, Linear 512 256 w2 b2, ReLU,
        Linear 256 128 w3 b3, ReLU, Linear 128 nc w4 b4] rows = Inr logits \<and>
     length logits = length rows \<and> list_all (\<lambda>row. length row = nc) logits"
proof -
  from module_forward_Linear [OF rows] obtain r1 where
    1: "module_forward (Linear 768 512 w1 b1) rows = Inr r1" "list_all (\<lambda>row. length row = 512) r1"
    by blast
  from module_forward_ReLU [OF 1(2)] obtain r2 where
    2: "module_forward ReLU r1 = Inr r2" "list_all (\<lambda>row. length row = 512) r2"
    by blast
  from module_forward_Linear [OF 2(2)] obtain r3 where
    3: "module_forward (Linear 512 256 w2 b2) r2 = Inr r3" "list_all (\<lambda>row. length row = 256) r3"
    by blast
  from module_forward_ReLU [OF 3(2)] obtain r4 where
    4: "module_forward ReLU r3 = Inr r4" "list_all (\<lambda>row. length row = 256) r4"
    by blast
  from module_forward_Linear [OF 4(2)] obtain r5 where
    5: "module_forward (Linear 256 128 w3 b3) r4 = Inr r5" "list_all (\<lambda>row. length row = 128) r5"
    by blast
  from module_forward_ReLU [OF 5(2)] obtain r6 where
    6: "module_forward ReLU r5 = Inr r6" "list_all (\<lambda>row. length row = 128) r6"
    by blast
  from module_forward_Linear [OF 6(2)] obtain r7 where
    7: "module_forward (Linear 128 nc w4 b4) r6 = Inr r7" "list_all (\<lambda>row. length row = nc) r7"
    by blast
  have s: "sequential_forward
       [Linear 768 512 w1 b1, ReLU, Linear 512 256 w2 b2, ReLU,
        Linear 256 128 w3 b3, ReLU, Linear 128 nc w4 b4] rows = Inr r7"
    using 1(1) 2(1) 3(1) 4(1) 5(1) 6(1) 7(1)
    by (simp only: sequential_forward.simps sum.case)
  from sequential_forward_length [OF s] s 7(2) show ?thesis by simp
qed

lemma architecture_init:
  "architecture (CustomBERTModel_init pretrained w0 b0 nc) = head_architecture nc"
  by (simp add: architecture_def CustomBERTModel_init_def nn_Linear_def head_architecture_def)

lemma classifier_of_architecture:
  assumes "architecture m = head_architecture nc"
  shows "\<exists>w1 b1 w2 b2 w3 b3 w4 b4. classifier m =
       [Linear 768 512 w1 b1, ReLU, Linear 512 256 w2 b2, ReLU,
        Linear 256 128 w3 b3, ReLU, Linear 128 nc w4 b4]"
proof -
  from assms obtain m1 m2 m3 m4 m5 m6 m7 where c: "classifier m = [m1, m2, m3, m4, m5, m6, m7]"
    and k: "kind_of m1 = LinearLayer 768 512" "kind_of m2 = ReLULayer"
      "kind_of m3 = LinearLayer 512 256" "kind_of m4 = ReLULayer"
      "kind_of m5 = LinearLayer 256 128" "kind_of m6 = ReLULayer"
      "kind_of m7 = LinearLayer 128 nc"
    by (auto simp: architecture_def head_architecture_def map_eq_Cons_conv)
  from k c show ?thesis
    by (auto dest!: kind_of_Linear kind_of_ReLU)
qed

lemma forward_shape:
  assumes p: "pooler_shape T" and a: "architecture m = head_architecture nc"
  shows "\<exists>logits. forward T m input_ids attention_mask = Inr logits \<and>
           length logits = length input_ids \<and> list_all (\<lambda>row. length row = nc) logits"
proof -
  let ?pooled = "bert_forward T (training m) (map data (bert m)) input_ids attention_mask"
  from p have len: "length ?pooled = length input_ids"
    and rows: "list_all (\<lambda>row. length row = 768) ?pooled"
    by (simp_all add: pooler_shape_def)
  from classifier_of_architecture [OF a] obtain w1 b1 w2 b2 w3 b3 w4 b4 where
    c: "classifier m = [Linear 768 512 w1 b1, ReLU, Linear 512 256 w2 b2, ReLU,
        Linear 256 128 w3 b3, ReLU, Linear 128 nc w4 b4]" by blast
  from head_forward [OF rows, of w1 b1 w2 b2 w3 b3 nc w4 b4] c len
  show ?thesis by (simp add: forward_def)
qed

lemma upt_two: "[0..<2] = [0, Suc 0]"
  by (simp add: upt_rec)

subsection \<open>Tokenization\<close>

lemma length_add_special_truncate:
  "2 \<le> n \<Longrightarrow> length (add_special_tokens (truncate_pieces True n ps)) \<le> n"
  by (auto simp add: add_special_tokens_def truncate_pieces_def)

lemma length_pad_ids: "length ids \<le> n \<Longrightarrow> length (pad_ids n ids) = n"
  by (simp add: pad_ids_def)

lemma length_pad_mask: "length ids \<le> n \<Longrightarrow> length (pad_mask n ids) = n"
  by (simp add: pad_mask_def)

lemma tokenizer_max_length:
  "tokenizer wp texts n MaxLength True =
     [(''input_ids'', map (\<lambda>t. pad_ids n (add_special_tokens (truncate_pieces True n (wp t)))) texts),
      (''token_type_ids'', map (\<lambda>t. pad_type_ids n (add_special_tokens (truncate_pieces True n (wp t)))) texts),
      (''attention_mask'', map (\<lambda>t. pad_mask n (add_special_tokens (truncate_pieces True n (wp t)))) texts)]"
  by (simp add: tokenizer_def pad_target_def Let_def comp_def)

lemma tokenizer_max_length_fields:
  assumes "2 \<le> n"
  shows "\<exists>ids mask.
     dict_get (tokenizer wp texts n MaxLength True) ''input_ids'' = Inr ids \<and>
     dict_get (tokenizer wp texts n MaxLength True) ''attention_mask'' = Inr mask \<and>
     map length ids = replicate (length texts) n \<and>
     map length mask = replicate (length texts) n"
proof -
  let ?seq = "\<lambda>t. add_special_tokens (truncate_pieces True n (wp t))"
  let ?ids = "map (\<lambda>t. pad_ids n (?seq t)) texts"
  let ?mask = "map (\<lambda>t. pad_mask n (?seq t)) texts"
  have 1: "dict_get (tokenizer wp texts n MaxLength True) ''input_ids'' = Inr ?ids"
    by (simp add: tokenizer_max_length dict_get_def)
  have 2: "dict_get (tokenizer wp texts n MaxLength True) ''attention_mask'' = Inr ?mask"
    by (simp add: tokenizer_max_length dict_get_def)
  have 3: "map length ?ids = replicate (length texts) n"
    using assms
    by (simp add: length_pad_ids length_add_special_truncate map_replicate_const [symmetric] comp_def)
  have 4: "map length ?mask = replicate (length texts) n"
    using assms
    by (simp add: length_pad_mask length_add_special_truncate map_replicate_const [symmetric] comp_def)
  from 1 2 3 4 show ?thesis by blast
qed

lemma padded_ids:
  "pad_ids 256 (add_special_tokens (truncate_pieces True 256 ps)) =
     (if length ps + 2 \<le> 256
      then 101 # ps @ 102 # replicate (254 - length ps) 0
      else 101 # take 254 ps @ [102])"
  by (simp add: pad_ids_def add_special_tokens_def truncate_pieces_def
      cls_token_id_def sep_token_id_def pad_token_id_def)

lemma replicate_256: "replicate 256 x = x # x # replicate 254 x"
proof -
  have "(256::nat) = Suc (Suc 254)" by simp
  then show ?thesis by (simp only: replicate_Suc)
qed

lemma padded_mask:
  "pad_mask 256 (add_special_tokens (truncate_pieces True 256 ps)) =
     (if length ps + 2 \<le> 256
      then replicate (length ps + 2) 1 @ replicate (254 - length ps) 0
      else replicate 256 1)"
  by (auto simp add: pad_mask_def add_special_tokens_def truncate_pieces_def min_def replicate_256)

text \<open>
  C4. For every list of texts, \<open>tokenize_function\<close> returns, for each text, its token
  ids between the two special tokens 101 and 102, padded with 0 when the text is short
  and cut to 254 word pieces when it is long, and an attention mask that is 1 on the
  tokens and 0 on the padding; every such sequence has exactly MAX_LENGTH = 256 entries.
\<close>

theorem tokenize_function_fixed_length:
  "dict_get (tokenize_function wordpiece texts) ''input_ids'' =
     Inr (map (\<lambda>t. if length (wordpiece t) + 2 \<le> 256
                   then 101 # wordpiece t @ 102 # replicate (254 - length (wordpiece t)) 0
                   else 101 # take 254 (wordpiece t) @ [102]) texts) \<and>
   dict_get (tokenize_function wordpiece texts) ''attention_mask'' =
     Inr (map (\<lambda>t. if length (wordpiece t) + 2 \<le> 256
                   then replicate (length (wordpiece t) + 2) 1 @
                        replicate (254 - length (wordpiece t)) 0
                   else replicate 256 1) texts) \<and>
   (\<exists>ids mask.
      dict_get (tokenize_function wordpiece texts) ''input_ids'' = Inr ids \<and>
      dict_get (tokenize_function wordpiece texts) ''attention_mask'' = Inr mask \<and>
      map length ids = replicate (length texts) 256 \<and>
      map length mask = replicate (length texts) 256) \<and>
   MAX_LENGTH = 256"
proof (intro conjI)
  show "dict_get (tokenize_function wordpiece texts) ''input_ids'' =
     Inr (map (\<lambda>t. if length (wordpiece t) + 2 \<le> 256
                   then 101 # wordpiece t @ 102 # replicate (254 - length (wordpiece t)) 0
                   else 101 # take 254 (wordpiece t) @ [102]) texts)"
    by (simp only: tokenize_function_def MAX_LENGTH_def tokenizer_max_length padded_ids)
       (simp add: dict_get_def)
  show "dict_get (tokenize_function wordpiece texts) ''attention_mask'' =
     Inr (map (\<lambda>t. if length (wordpiece t) + 2 \<le> 256
                   then replicate (length (wordpiece t) + 2) 1 @
                        replicate (254 - length (wordpiece t)) 0
                   else replicate 256 1) texts)"
    by (simp only: tokenize_function_def MAX_LENGTH_def tokenizer_max_length padded_mask)
       (simp add: dict_get_def)
  show "\<exists>ids mask.
      dict_get (tokenize_function wordpiece texts) ''input_ids'' = Inr ids \<and>
      dict_get (tokenize_function wordpiece texts) ''attention_mask'' = Inr mask \<and>
      map length ids = replicate (length texts) 256 \<and>
      map length mask = replicate (length texts) 256"
    using tokenizer_max_length_fields [of 256 wordpiece texts]
    by (simp add: tokenize_function_def MAX_LENGTH_def)
  show "MAX_LENGTH = 256" by (simp add: MAX_LENGTH_def)
qed

theorem tokenize_function_fixed_length_witness:
  "dict_get (tokenize_function (\<lambda>t. [7, 8]) [''ab'']) ''input_ids'' =
     Inr [101 # 7 # 8 # 102 # replicate 252 0] \<and>
   dict_get (tokenize_function (\<lambda>t. [7, 8]) [''ab'']) ''attention_mask'' =
     Inr [1 # 1 # 1 # 1 # replicate 252 0]"
  using tokenize_function_fixed_length [of "\<lambda>t. [7, 8]" "[''ab'']"] by simp

text \<open>A short text is padded, a long one is cut: the two special tokens stay.\<close>

lemma tokenize_function_pads:
  "length (wp t) + 2 \<le> 256 \<Longrightarrow>
   dict_get (tokenize_function wp [t]) ''input_ids'' =
     Inr [cls_token_id # wp t @ [sep_token_id] @ replicate (254 - length (wp t)) pad_token_id]"
  by (simp add: tokenize_function_def MAX_LENGTH_def tokenizer_max_length dict_get_def
      pad_ids_def add_special_tokens_def truncate_pieces_def)

lemma tokenize_function_truncates:
  "256 < length (wp t) + 2 \<Longrightarrow>
   dict_get (tokenize_function wp [t]) ''input_ids'' =
     Inr [cls_token_id # take 254 (wp t) @ [sep_token_id]]"
  by (simp add: tokenize_function_def MAX_LENGTH_def tokenizer_max_length dict_get_def
      pad_ids_def add_special_tokens_def truncate_pieces_def)

text \<open>Without padding or without truncation the lengths are not fixed.\<close>

lemma tokenizer_without_padding:
  "dict_get (tokenizer (\<lambda>t. [7, 8]) [''ab''] 256 DoNotPad True) ''input_ids'' = Inr [[101, 7, 8, 102]]"
  by (simp add: tokenizer_def pad_target_def dict_get_def pad_ids_def add_special_tokens_def
      truncate_pieces_def cls_token_id_def sep_token_id_def)

subsection \<open>The classifier head\<close>

text \<open>
  C2. The classifier that \<open>__init__\<close> builds has exactly four linear layers, of
  dimensions 768 -> 512 -> 256 -> 128 -> 2, with a ReLU between each two. For every
  batch, when the encoder's pooler output has one row of 768 entries per example, the
  forward pass of a model with this classifier returns logits with one row of 2
  entries per example, and row \<open>i\<close> of the logits is the layer stack applied to row
  \<open>i\<close> of the pooler output.
\<close>

theorem classifier_head_forward:
  "architecture (CustomBERTModel_init pretrained w0 b0 2) =
     [LinearLayer 768 512, ReLULayer, LinearLayer 512 256, ReLULayer,
      LinearLayer 256 128, ReLULayer, LinearLayer 128 2] \<and>
   length (filter (\<lambda>k. k \<noteq> ReLULayer) (architecture (CustomBERTModel_init pretrained w0 b0 2))) = 4 \<and>
   (pooler_shape T \<and> architecture m = architecture (CustomBERTModel_init pretrained w0 b0 2) \<longrightarrow>
      (\<exists>logits.
         forward T m input_ids attention_mask = Inr logits \<and>
         length logits = length input_ids \<and>
         list_all (\<lambda>row. length row = 2) logits \<and>
         (\<forall>i<length input_ids.
            sequential_forward (classifier m)
              [bert_forward T (training m) (map data (bert m)) input_ids attention_mask ! i] =
            Inr [logits ! i])))"
proof (intro conjI impI)
  show "architecture (CustomBERTModel_init pretrained w0 b0 2) =
     [LinearLayer 768 512, ReLULayer, LinearLayer 512 256, ReLULayer,
      LinearLayer 256 128, ReLULayer, LinearLayer 128 2]"
    by (simp add: architecture_init head_architecture_def)
next
  show "length (filter (\<lambda>k. k \<noteq> ReLULayer) (architecture (CustomBERTModel_init pretrained w0 b0 2))) = 4"
    by (simp add: architecture_init head_architecture_def)
next
  assume h: "pooler_shape T \<and> architecture m = architecture (CustomBERTModel_init pretrained w0 b0 2)"
  then have p: "pooler_shape T" and a: "architecture m = head_architecture 2"
    by (simp_all add: architecture_init)
  from forward_shape [OF p a, of input_ids attention_mask] obtain logits where
    f: "forward T m input_ids attention_mask = Inr logits"
    and l: "length logits = length input_ids"
    and w: "list_all (\<lambda>row. length row = 2) logits" by blast
  let ?pooled = "bert_forward T (training m) (map data (bert m)) input_ids attention_mask"
  from f have s: "sequential_forward (classifier m) ?pooled = Inr logits"
    by (simp add: forward_def)
  from p have pl: "length ?pooled = length input_ids" by (simp add: pooler_shape_def)
  have "\<forall>i<length input_ids. sequential_forward (classifier m) [?pooled ! i] = Inr [logits ! i]"
    using sequential_forward_row [OF s] pl by simp
  with f l w show "\<exists>logits.
         forward T m input_ids attention_mask = Inr logits \<and>
         length logits = length input_ids \<and>
         list_all (\<lambda>row. length row = 2) logits \<and>
         (\<forall>i<length input_ids.
            sequential_forward (classifier m)
              [bert_forward T (training m) (map data (bert m)) input_ids attention_mask ! i] =
            Inr [logits ! i])"
    by blast
qed

lemma pooler_shape_torch0: "pooler_shape torch0"
  by (simp add: pooler_shape_def torch0_def list_all_iff)

lemma architecture_model0: "architecture model0 = head_architecture 2"
  by (simp add: model0_def architecture_init)

theorem classifier_head_forward_witness:
  "pooler_shape torch0 \<and>
   architecture model0 =
     architecture (CustomBERTModel_init [] (\<lambda>k ix. 0) (\<lambda>k ix. 0) 2 :: int CustomBERTModel) \<and>
   (\<exists>logits.
      forward torch0 model0 [Tensor1 [101, 7, 102]] [Tensor1 [1, 1, 1]] = Inr logits \<and>
      length logits = length [Tensor1 [101, 7, 102]] \<and>
      list_all (\<lambda>row. length row = 2) logits \<and>
      (\<forall>i<length [Tensor1 [101, 7, 102]].
         sequential_forward (classifier model0)
           [bert_forward torch0 (training model0) (map data (bert model0))
              [Tensor1 [101, 7, 102]] [Tensor1 [1, 1, 1]] ! i] =
         Inr [logits ! i]))"
proof -
  have a: "architecture model0 =
     architecture (CustomBERTModel_init [] (\<lambda>k ix. 0) (\<lambda>k ix. 0) 2 :: int CustomBERTModel)"
    by (simp add: architecture_model0 architecture_init)
  note th = classifier_head_forward [of "[]" "\<lambda>k ix. 0" "\<lambda>k ix. 0" torch0 model0
      "[Tensor1 [101, 7, 102]]" "[Tensor1 [1, 1, 1]]",
      THEN conjunct2, THEN conjunct2, THEN mp, OF conjI, OF pooler_shape_torch0 a]
  show ?thesis by (intro conjI pooler_shape_torch0 a th)
qed

text \<open>A pooler output of another width is refused by the first linear layer.\<close>

lemma linear_row_wrong_width: "linear_row 768 512 w b [1, 2, 3 :: int] = Inl RuntimeError"
  by (simp add: linear_row_def)

subsection \<open>Inference\<close>

lemma predictions_total:
  "list_all (\<lambda>row. row \<noteq> []) logits \<Longrightarrow> \<exists>preds. predictions logits = Inr preds"
  unfolding predictions_def
  by (rule map_err_total) (simp add: argmax_Inr_iff)

lemma predictions_length: "predictions logits = Inr preds \<Longrightarrow> length preds = length logits"
  by (simp add: predictions_def map_err_length)

lemma predictions_nth:
  "predictions logits = Inr preds \<Longrightarrow> i < length logits \<Longrightarrow> argmax (logits ! i) = Inr (preds ! i)"
  by (simp add: predictions_def map_err_nth)

lemma predictions_less:
  assumes "predictions logits = Inr preds" and "list_all (\<lambda>row. length row = n) logits"
  shows "list_all (\<lambda>p. p < n) preds"
proof -
  from assms(1) have "map_err argmax logits = Inr preds" by (simp add: predictions_def)
  then show ?thesis
  proof (rule map_err_all)
    from assms(2) show "\<forall>x\<in>set logits. \<forall>y. argmax x = Inr y \<longrightarrow> y < n"
      by (auto simp: list_all_iff dest: argmax_less)
  qed
qed

lemma architecture_training [simp]: "architecture (m\<lparr>training := tr\<rparr>) = architecture m"
  by (simp add: architecture_def)

text \<open>
  C8. For every list of example texts, the inference cell takes the argmax of each row
  of logits as the prediction and prints, for each text, "POSITIVE" if and only if its
  prediction is 1 and "NEGATIVE" otherwise; nothing but the prediction decides the
  word.
\<close>

theorem inference_sentiment:
  assumes p: "pooler_shape T" and a: "architecture m = head_architecture 2"
  shows "\<exists>ids mask logits preds printed.
     dict_get (tokenizer wordpiece texts 256 MaxLength True) ''input_ids'' = Inr ids \<and>
     dict_get (tokenizer wordpiece texts 256 MaxLength True) ''attention_mask'' = Inr mask \<and>
     forward T (m\<lparr>training := False\<rparr>) (map Tensor1 ids) (map Tensor1 mask) = Inr logits \<and>
     predictions logits = Inr preds \<and>
     inference wordpiece T m texts = Inr (preds, printed) \<and>
     length preds = length texts \<and>
     list_all (\<lambda>p. p < 2) preds \<and>
     map fst printed = texts \<and>
     map snd printed = map sentiment preds \<and>
     (\<forall>i<length texts.
        argmax (logits ! i) = Inr (preds ! i) \<and>
        (snd (printed ! i) = ''POSITIVE'') = (preds ! i = 1) \<and>
        (snd (printed ! i) = ''NEGATIVE'') = (preds ! i \<noteq> 1))"
proof -
  let ?ids = "map (\<lambda>t. pad_ids 256 (add_special_tokens (truncate_pieces True 256 (wordpiece t)))) texts"
  let ?mask = "map (\<lambda>t. pad_mask 256 (add_special_tokens (truncate_pieces True 256 (wordpiece t)))) texts"
  let ?m = "m\<lparr>training := False\<rparr>"
  have i: "dict_get (tokenizer wordpiece texts 256 MaxLength True) ''input_ids'' = Inr ?ids"
    by (simp add: tokenizer_max_length dict_get_def)
  have k: "dict_get (tokenizer wordpiece texts 256 MaxLength True) ''attention_mask'' = Inr ?mask"
    by (simp add: tokenizer_max_length dict_get_def)
  from a have a': "architecture ?m = head_architecture 2" by simp
  from forward_shape [OF p a', of "map Tensor1 ?ids" "map Tensor1 ?mask"] obtain logits where
    f: "forward T ?m (map Tensor1 ?ids) (map Tensor1 ?mask) = Inr logits"
    and l: "length logits = length texts"
    and w: "list_all (\<lambda>row. length row = 2) logits" by auto
  from w have "list_all (\<lambda>row. row \<noteq> []) logits" by (auto simp: list_all_iff)
  from predictions_total [OF this] obtain preds where pr: "predictions logits = Inr preds" by blast
  let ?printed = "map (\<lambda>tp. (fst tp, sentiment (snd tp))) (zip texts preds)"
  have inf: "inference wordpiece T m texts = Inr (preds, ?printed)"
    using f pr by (simp add: inference_def Let_def i k)
  from predictions_length [OF pr] l have lp: "length preds = length texts" by simp
  have less: "list_all (\<lambda>p. p < 2) preds" by (rule predictions_less [OF pr w])
  from lp have m1: "map fst ?printed = texts" by (simp add: comp_def)
  have "map snd ?printed = map sentiment (map snd (zip texts preds))" by (simp add: comp_def)
  with lp have m2: "map snd ?printed = map sentiment preds" by simp
  have each: "\<forall>i<length texts.
        argmax (logits ! i) = Inr (preds ! i) \<and>
        (snd (?printed ! i) = ''POSITIVE'') = (preds ! i = 1) \<and>
        (snd (?printed ! i) = ''NEGATIVE'') = (preds ! i \<noteq> 1)"
    using predictions_nth [OF pr] l lp by (simp add: sentiment_def)
  from i k f pr inf lp less m1 m2 each show ?thesis by blast
qed

theorem inference_sentiment_witness:
  "pooler_shape torch0 \<and> architecture model0 = head_architecture 2 \<and>
   (\<exists>ids mask logits preds printed.
     dict_get (tokenizer wordpiece0 example_texts 256 MaxLength True) ''input_ids'' = Inr ids \<and>
     dict_get (tokenizer wordpiece0 example_texts 256 MaxLength True) ''attention_mask'' = Inr mask \<and>
     forward torch0 (model0\<lparr>training := False\<rparr>) (map Tensor1 ids) (map Tensor1 mask) = Inr logits \<and>
     predictions logits = Inr preds \<and>
     inference wordpiece0 torch0 model0 example_texts = Inr (preds, printed) \<and>
     length preds = length example_texts \<and>
     list_all (\<lambda>p. p < 2) preds \<and>
     map fst printed = example_texts \<and>
     map snd printed = map sentiment preds \<and>
     (\<forall>i<length example_texts.
        argmax (logits ! i) = Inr (preds ! i) \<and>
        (snd (printed ! i) = ''POSITIVE'') = (preds ! i = 1) \<and>
        (snd (printed ! i) = ''NEGATIVE'') = (preds ! i \<noteq> 1)))"
  by (intro conjI pooler_shape_torch0 architecture_model0
      inference_sentiment [OF pooler_shape_torch0 architecture_model0])

text \<open>The two classes: index 1 is printed as positive, index 0 as negative.\<close>

lemma sentiment_values: "sentiment 1 = ''POSITIVE'' \<and> sentiment 0 = ''NEGATIVE''"
  by (simp add: sentiment_def)

subsection \<open>Data loaders\<close>

lemma concat_batch_sampler: "concat (batch_sampler bs False batch idxs) = batch @ idxs"
  by (induction bs False batch idxs rule: batch_sampler.induct) auto

lemma batch_sampler_sizes:
  "length batch < bs \<Longrightarrow>
   list_all (\<lambda>b. 0 < length b \<and> length b \<le> bs) (batch_sampler bs False batch idxs)"
  by (induction bs False batch idxs rule: batch_sampler.induct) auto

lemma batch_sampler_full:
  "length batch < bs \<Longrightarrow>
   list_all (\<lambda>b. length b = bs) (butlast (batch_sampler bs False batch idxs))"
  by (induction bs False batch idxs rule: batch_sampler.induct) auto

lemma length_batch_sampler:
  "length batch < bs \<Longrightarrow>
   length (batch_sampler bs False batch idxs) = (length batch + length idxs + bs - 1) div bs"
proof (induction bs False batch idxs rule: batch_sampler.induct)
  case (1 bs batch)
  then show ?case by (cases "length batch") (auto simp: div_eq_0_iff)
next
  case (2 bs batch idx rest)
  show ?case
  proof (cases "length (batch @ [idx]) = bs")
    case True
    then have pos: "0 < bs" by simp
    have e1: "length (batch_sampler bs False batch (idx # rest)) =
        Suc (length (batch_sampler bs False [] rest))"
      using True by simp
    define x where "x = length rest + bs - 1"
    have e2: "length (batch_sampler bs False [] rest) = x div bs"
      using "2.hyps"(1) [OF True] pos by (simp add: x_def)
    have e3: "length batch + length (idx # rest) + bs - 1 = x + bs"
      using True by (simp add: x_def)
    have e4: "(x + bs) div bs = Suc (x div bs)"
      using pos by simp
    show ?thesis by (simp only: e1 e2 e3 e4)
  next
    case False
    with 2 show ?thesis by simp
  qed
qed

lemma getitem_total:
  assumes "encodings_cover ds" and "i < len ds"
  shows "\<exists>item. getitem ds (int i) = Inr item"
proof -
  from assms have "\<forall>kv\<in>set (encodings ds). int i < int (length (snd kv))"
    by (auto simp: encodings_cover_def len_def list_all_iff)
  then obtain r where r: "item_of_encodings [] (encodings ds) (int i) = Inr r"
    using item_of_encodings_ok [of "int i" "encodings ds" "[]"] by auto
  from assms(2) have "py_getitem (labels ds) (int i) = Inr (labels ds ! i)"
    by (simp add: py_getitem_in_range len_def)
  with r show ?thesis by (simp add: getitem_def)
qed

lemma fetch_total:
  assumes "encodings_cover ds" and "\<forall>i\<in>set idxs. i < len ds"
  shows "\<exists>items. fetch ds idxs = Inr items"
proof -
  from assms have "list_all (\<lambda>i. \<exists>item. getitem ds (int i) = Inr item) idxs"
    by (auto simp: list_all_iff intro: getitem_total)
  from map_err_total [OF this] show ?thesis by simp
qed

lemma map_err_nested:
  "map_err (map_err f) xss = Inr yss \<Longrightarrow>
   map f (concat xss) = map Inr (concat yss) \<and> map length yss = map length xss"
proof (induction xss arbitrary: yss)
  case Nil
  then show ?case by auto
next
  case (Cons xs xss)
  from Cons.prems obtain ys yss' where ys: "map_err f xs = Inr ys"
    and rest: "map_err (map_err f) xss = Inr yss'" and yss: "yss = ys # yss'"
    by (auto split: sum.splits)
  from ys have "map f xs = map Inr ys" by (simp add: map_err_Inr_iff)
  with Cons.IH [OF rest] map_err_length [OF ys] yss show ?case by simp
qed

lemma list_all_map_eq:
  "map f xs = map g ys \<Longrightarrow> list_all (\<lambda>y. P (g y)) ys \<Longrightarrow> list_all (\<lambda>x. P (f x)) xs"
  by (induction xs arbitrary: ys) auto

lemma loader_iter_batches:
  assumes cover: "encodings_cover ds"
    and idx: "\<forall>i\<in>set (sampler (DataLoader ds bs sh) perm). i < len ds"
    and pos: "0 < bs"
  shows "\<exists>batches.
     loader_iter (DataLoader ds bs sh) perm = Inr batches \<and>
     map_err (fetch ds) (batch_sampler bs False [] (sampler (DataLoader ds bs sh) perm)) = Inr batches \<and>
     map Inr (concat batches) = map (\<lambda>i. getitem ds (int i)) (sampler (DataLoader ds bs sh) perm) \<and>
     list_all (\<lambda>b. 0 < length b \<and> length b \<le> bs) batches \<and>
     list_all (\<lambda>b. length b = bs) (butlast batches) \<and>
     length batches = (length (sampler (DataLoader ds bs sh) perm) + bs - 1) div bs"
proof -
  let ?s = "sampler (DataLoader ds bs sh) perm"
  let ?chunks = "batch_sampler bs False [] ?s"
  have cc: "concat ?chunks = ?s" by (simp add: concat_batch_sampler)
  have "list_all (\<lambda>c. \<exists>items. fetch ds c = Inr items) ?chunks"
    unfolding list_all_iff
  proof
    fix c assume "c \<in> set ?chunks"
    then have "set c \<subseteq> set (concat ?chunks)" by auto
    with cc idx have "\<forall>i\<in>set c. i < len ds" by auto
    from fetch_total [OF cover this] show "\<exists>items. fetch ds c = Inr items" .
  qed
  from map_err_total [OF this] obtain batches where b: "map_err (fetch ds) ?chunks = Inr batches"
    by blast
  then have b': "map_err (map_err (\<lambda>i. getitem ds (int i))) ?chunks = Inr batches"
    by (simp add: fetch.simps [abs_def])
  from map_err_nested [OF b'] cc have
    content: "map Inr (concat batches) = map (\<lambda>i. getitem ds (int i)) ?s"
    and lens: "map length batches = map length ?chunks" by simp_all
  from pos have s1: "list_all (\<lambda>c. 0 < length c \<and> length c \<le> bs) ?chunks"
    using batch_sampler_sizes [of "[]" bs ?s] by simp
  from pos have s2: "list_all (\<lambda>c. length c = bs) (butlast ?chunks)"
    using batch_sampler_full [of "[]" bs ?s] by simp
  have z1: "list_all (\<lambda>b. 0 < length b \<and> length b \<le> bs) batches"
    by (rule list_all_map_eq [OF lens s1])
  from lens have "butlast (map length batches) = butlast (map length ?chunks)" by simp
  then have "map length (butlast batches) = map length (butlast ?chunks)"
    by (simp only: map_butlast)
  then have z2: "list_all (\<lambda>b. length b = bs) (butlast batches)"
    using s2 by (rule list_all_map_eq)
  from lens have "length (map length batches) = length (map length ?chunks)" by simp
  then have "length batches = length ?chunks" by (simp only: length_map)
  with pos have z3: "length batches = (length ?s + bs - 1) div bs"
    using length_batch_sampler [of "[]" bs ?s] by simp
  from b content z1 z2 z3 show ?thesis by simp
qed

lemma batch_sampler_nonempty:
  "batch \<noteq> [] \<or> idxs \<noteq> [] \<Longrightarrow> batch_sampler bs False batch idxs \<noteq> []"
  by (induction bs False batch idxs rule: batch_sampler.induct) auto

lemma batch_sampler_last:
  "length batch < bs \<Longrightarrow> 0 < length batch + length idxs \<Longrightarrow>
   length (last (batch_sampler bs False batch idxs)) =
     (if (length batch + length idxs) mod bs = 0 then bs else (length batch + length idxs) mod bs)"
proof (induction bs False batch idxs rule: batch_sampler.induct)
  case (1 bs batch)
  then show ?case by simp
next
  case (2 bs batch idx rest)
  show ?case
  proof (cases "length (batch @ [idx]) = bs")
    case True
    then have pos: "0 < bs" by simp
    show ?thesis
    proof (cases rest)
      case Nil
      with True show ?thesis by simp
    next
      case (Cons r rs)
      then have ne: "batch_sampler bs False [] rest \<noteq> []"
        by (simp add: batch_sampler_nonempty)
      from Cons pos have ih: "length (last (batch_sampler bs False [] rest)) =
          (if length rest mod bs = 0 then bs else length rest mod bs)"
        using "2.hyps"(1) [OF True] by simp
      have m: "(length batch + length (idx # rest)) mod bs = length rest mod bs"
      proof -
        from True have "length batch + length (idx # rest) = bs + length rest" by simp
        then show ?thesis by (simp only: mod_add_self1)
      qed
      from True ne ih m show ?thesis by simp
    qed
  next
    case False
    with 2 show ?thesis by simp
  qed
qed







lemma encodings_cover_ds_ten: "encodings_cover ds_ten"
  by (simp add: encodings_cover_def ds_ten_def)

lemma encodings_cover_ds_example: "encodings_cover ds_example"
  by (simp add: encodings_cover_def ds_example_def)

lemma len_ds_ten: "len ds_ten = 10"
  by (simp add: len_def ds_ten_def)








text \<open>
  The notebook's own partitions have 22500, 2500 and 25000 examples: the last batch of
  the train and of the validation loader has 4 examples.
\<close>

lemma last_batch_of_notebook_loaders:
  "length (last (batch_sampler 8 False [] [0..<22500])) = 4 \<and>
   length (last (batch_sampler 8 False [] [0..<2500])) = 4 \<and>
   length (last (batch_sampler 8 False [] [0..<25000])) = 8"
  by (simp add: batch_sampler_last)

subsection \<open>Parameters and the optimizer\<close>

lemma bert_map_param_head: "head_ref r \<Longrightarrow> bert (map_param f r m) = bert m"
  by (cases r) (simp_all add: map_param_def)

lemma kind_of_map_weight [simp]: "kind_of (map_weight f md) = kind_of md"
  by (cases md) simp_all

lemma kind_of_map_bias [simp]: "kind_of (map_bias f md) = kind_of md"
  by (cases md) simp_all

lemma kind_of_update_same:
  "(map kind_of cls)[k := kind_of (cls ! k)] = map kind_of cls"
  by (metis list_update_id map_update)

lemma architecture_map_param [simp]: "architecture (map_param f r m) = architecture m"
  by (cases r) (simp_all add: map_param_def architecture_def map_update kind_of_update_same)

lemma training_map_param [simp]: "training (map_param f r m) = training m"
  by (cases r) (simp_all add: map_param_def)

lemma bert_receive_grad:
  "frozen m \<Longrightarrow> bert (map_param (receive_grad T g) r m) = bert m"
proof (cases r)
  case (BertParam i)
  assume f: "frozen m"
  show ?thesis
  proof (cases "i < length (bert m)")
    case True
    with f have "\<not> requires_grad (bert m ! i)" by (simp add: frozen_def list_all_length)
    then have "receive_grad T g (bert m ! i) = bert m ! i" by (simp add: receive_grad_def)
    with True BertParam show ?thesis by (simp add: map_param_def)
  next
    case False
    with BertParam show ?thesis by (simp add: map_param_def)
  qed
qed (simp_all add: bert_map_param_head)

lemma fold_head_refs:
  "list_all head_ref rs \<Longrightarrow> bert (fold (\<lambda>r. map_param (F r) r) rs m) = bert m"
  by (induction rs arbitrary: m) (simp_all add: bert_map_param_head)

lemma fold_architecture [simp]: "architecture (fold (\<lambda>r. map_param (F r) r) rs m) = architecture m"
  by (induction rs arbitrary: m) simp_all

lemma fold_training [simp]: "training (fold (\<lambda>r. map_param (F r) r) rs m) = training m"
  by (induction rs arbitrary: m) simp_all

lemma bert_zero_grad: "list_all head_ref (param_groups opt) \<Longrightarrow> bert (zero_grad opt m) = bert m"
  unfolding zero_grad_def by (rule fold_head_refs)

lemma architecture_zero_grad [simp]: "architecture (zero_grad opt m) = architecture m"
  unfolding zero_grad_def by (rule fold_architecture)

lemma training_zero_grad [simp]: "training (zero_grad opt m) = training m"
  unfolding zero_grad_def by (rule fold_training)

lemma fold_receive_grad:
  "frozen m \<Longrightarrow> bert (fold (\<lambda>r. map_param (receive_grad T (G r)) r) rs m) = bert m"
proof (induction rs arbitrary: m)
  case Nil
  then show ?case by simp
next
  case (Cons r rs)
  let ?m = "map_param (receive_grad T (G r)) r m"
  from Cons.prems have b: "bert ?m = bert m" by (rule bert_receive_grad)
  with Cons.prems have "frozen ?m" by (simp add: frozen_def)
  from Cons.IH [OF this] b show ?case by simp
qed

lemma bert_backward: "frozen m \<Longrightarrow> bert (backward T m input_ids attention_mask lbls) = bert m"
  unfolding backward_def by (rule fold_receive_grad)

lemma architecture_backward [simp]:
  "architecture (backward T m input_ids attention_mask lbls) = architecture m"
  unfolding backward_def by (rule fold_architecture)

lemma training_backward [simp]:
  "training (backward T m input_ids attention_mask lbls) = training m"
  unfolding backward_def by (rule fold_training)

lemma step_param_facts:
  "architecture (fst (step_param T r ms)) = architecture (fst ms) \<and>
   training (fst (step_param T r ms)) = training (fst ms) \<and>
   (head_ref r \<longrightarrow> bert (fst (step_param T r ms)) = bert (fst ms))"
  by (auto simp: step_param_def bert_map_param_head split: option.splits prod.splits)

lemma fold_step_param:
  "architecture (fst (fold (step_param T) rs ms)) = architecture (fst ms) \<and>
   training (fst (fold (step_param T) rs ms)) = training (fst ms) \<and>
   (list_all head_ref rs \<longrightarrow> bert (fst (fold (step_param T) rs ms)) = bert (fst ms))"
proof (induction rs arbitrary: ms)
  case Nil
  then show ?case by simp
next
  case (Cons r rs)
  from Cons.IH [of "step_param T r ms"] step_param_facts [of T r ms]
  show ?case by simp
qed

lemma step_facts:
  "architecture (fst (step T opt m)) = architecture m \<and>
   training (fst (step T opt m)) = training m \<and>
   param_groups (snd (step T opt m)) = param_groups opt \<and>
   step_count (snd (step T opt m)) = step_count opt + 1 \<and>
   (list_all head_ref (param_groups opt) \<longrightarrow> bert (fst (step T opt m)) = bert m)"
proof -
  obtain m' s where f: "fold (step_param T) (param_groups opt) (m, state opt) = (m', s)"
    by (cases "fold (step_param T) (param_groups opt) (m, state opt)")
  with fold_step_param [of T "param_groups opt" "(m, state opt)"] show ?thesis
    by (simp add: step_def)
qed

lemma upt_seven: "[0..<7] = [0, 1, 2, 3, 4, 5, 6]"
  by (simp add: upt_rec)

lemma parameters_init:
  "parameters (CustomBERTModel_init pretrained w0 b0 nc) =
     map BertParam [0..<length pretrained] @
     [HeadWeight 0, HeadBias 0, HeadWeight 2, HeadBias 2,
      HeadWeight 4, HeadBias 4, HeadWeight 6, HeadBias 6]"
  by (simp add: parameters_def CustomBERTModel_init_def nn_Linear_def upt_seven)

lemma frozen_init: "frozen (CustomBERTModel_init pretrained w0 b0 nc)"
  by (simp add: frozen_def CustomBERTModel_init_def list_all_iff)

lemma trainable_params_init:
  "trainable_params (CustomBERTModel_init pretrained w0 b0 nc) =
     [HeadWeight 0, HeadBias 0, HeadWeight 2, HeadBias 2,
      HeadWeight 4, HeadBias 4, HeadWeight 6, HeadBias 6]"
proof -
  let ?m = "CustomBERTModel_init pretrained w0 b0 nc"
  let ?P = "\<lambda>r. case get_param ?m r of Some p \<Rightarrow> requires_grad p | None \<Rightarrow> False"
  have "\<forall>r\<in>set (map BertParam [0..<length pretrained]). \<not> ?P r"
    by (auto simp: get_param_def CustomBERTModel_init_def)
  then have e: "filter ?P (map BertParam [0..<length pretrained]) = []"
    by (simp only: filter_False)
  have h: "filter ?P [HeadWeight 0, HeadBias 0, HeadWeight 2, HeadBias 2,
      HeadWeight 4, HeadBias 4, HeadWeight 6, HeadBias 6] =
      [HeadWeight 0, HeadBias 0, HeadWeight 2, HeadBias 2,
      HeadWeight 4, HeadBias 4, HeadWeight 6, HeadBias 6]"
    by (simp add: get_param_def CustomBERTModel_init_def nn_Linear_def)
  show ?thesis
    unfolding trainable_params_def parameters_init filter_append e h by simp
qed

subsection \<open>The parameter objects behind the references\<close>

lemma get_param_map_param:
  "get_param (map_param f r m) r' =
     (if r' = r then map_option f (get_param m r) else get_param m r')"
proof (cases r)
  case (BertParam i)
  then show ?thesis
    by (cases r') (auto simp: get_param_def map_param_def nth_list_update)
next
  case (HeadWeight k)
  then show ?thesis
    by (cases r'; cases "classifier m ! k")
       (auto simp: get_param_def map_param_def nth_list_update split: Module.splits)
next
  case (HeadBias k)
  then show ?thesis
    by (cases r'; cases "classifier m ! k")
       (auto simp: get_param_def map_param_def nth_list_update split: Module.splits)
qed

lemma module_eq:
  assumes "kind_of md = kind_of md'"
    and "(case md of Linear a b w c \<Rightarrow> Some w | ReLU \<Rightarrow> None) =
         (case md' of Linear a b w c \<Rightarrow> Some w | ReLU \<Rightarrow> None)"
    and "(case md of Linear a b w c \<Rightarrow> Some c | ReLU \<Rightarrow> None) =
         (case md' of Linear a b w c \<Rightarrow> Some c | ReLU \<Rightarrow> None)"
  shows "md = md'"
  using assms by (cases md; cases md') simp_all

lemma model_eq:
  fixes m m' :: "'a CustomBERTModel"
  assumes a: "architecture m = architecture m'" and t: "training m = training m'"
    and g: "\<And>r. get_param m r = get_param m' r"
  shows "m = m'"
proof -
  have lb: "length (bert m) = length (bert m')"
  proof (rule ccontr)
    assume "length (bert m) \<noteq> length (bert m')"
    then consider "length (bert m) < length (bert m')" | "length (bert m') < length (bert m)"
      by linarith
    then show False
    proof cases
      case 1
      with g [of "BertParam (length (bert m))"] show False by (simp add: get_param_def)
    next
      case 2
      with g [of "BertParam (length (bert m'))"] show False by (simp add: get_param_def)
    qed
  qed
  have b: "bert m = bert m'"
  proof (rule nth_equalityI [OF lb])
    fix i assume "i < length (bert m)"
    with g [of "BertParam i"] lb show "bert m ! i = bert m' ! i" by (simp add: get_param_def)
  qed
  from a have lc: "length (classifier m) = length (classifier m')"
    unfolding architecture_def by (rule map_eq_imp_length_eq)
  have c: "classifier m = classifier m'"
  proof (rule nth_equalityI [OF lc])
    fix k assume k: "k < length (classifier m)"
    from a k lc have "kind_of (classifier m ! k) = kind_of (classifier m' ! k)"
      unfolding architecture_def by (metis nth_map)
    moreover from g [of "HeadWeight k"] k lc
    have "(case classifier m ! k of Linear a b w c \<Rightarrow> Some w | ReLU \<Rightarrow> None) =
         (case classifier m' ! k of Linear a b w c \<Rightarrow> Some w | ReLU \<Rightarrow> None)"
      by (simp add: get_param_def)
    moreover from g [of "HeadBias k"] k lc
    have "(case classifier m ! k of Linear a b w c \<Rightarrow> Some c | ReLU \<Rightarrow> None) =
         (case classifier m' ! k of Linear a b w c \<Rightarrow> Some c | ReLU \<Rightarrow> None)"
      by (simp add: get_param_def)
    ultimately show "classifier m ! k = classifier m' ! k" by (rule module_eq)
  qed
  from b c t show ?thesis by simp
qed

lemma get_param_fold:
  "distinct rs \<Longrightarrow>
   get_param (fold (\<lambda>r. map_param (F r) r) rs m) r' =
     (if r' \<in> set rs then map_option (F r') (get_param m r') else get_param m r')"
proof (induction rs arbitrary: m)
  case Nil
  then show ?case by simp
next
  case (Cons r rs)
  from Cons.prems have d: "distinct rs" and n: "r \<notin> set rs" by simp_all
  from Cons.IH [OF d, of "map_param (F r) r m"] n show ?case
    by (auto simp: get_param_map_param)
qed

lemma module_refs_mem:
  "r \<in> set (module_refs j md) \<longleftrightarrow> md \<noteq> ReLU \<and> (r = HeadWeight j \<or> r = HeadBias j)"
  by (cases md) auto

lemma parameters_valid: "r \<in> set (parameters m) \<longleftrightarrow> get_param m r \<noteq> None"
  by (cases r) (auto simp: parameters_def get_param_def module_refs_mem split: Module.splits)

lemma distinct_module_refs:
  "distinct ks \<Longrightarrow> distinct (concat (map (\<lambda>k. module_refs k (cls ! k)) ks))"
proof (induction ks)
  case Nil
  then show ?case by simp
next
  case (Cons k ks)
  have "set (module_refs k (cls ! k)) \<inter> set (concat (map (\<lambda>j. module_refs j (cls ! j)) ks)) = {}"
    using Cons.prems by (auto simp: module_refs_mem)
  moreover have "distinct (module_refs k (cls ! k))" by (cases "cls ! k") simp_all
  ultimately show ?case using Cons by simp
qed

lemma distinct_parameters: "distinct (parameters m)"
proof -
  have "set (map BertParam [0..<length (bert m)]) \<inter>
        set (concat (map (\<lambda>k. module_refs k (classifier m ! k)) [0..<length (classifier m)])) = {}"
    by (auto simp: module_refs_mem)
  moreover have "distinct (map BertParam [0..<length (bert m)])"
    by (simp add: distinct_map inj_on_def)
  ultimately show ?thesis
    unfolding parameters_def by (simp add: distinct_module_refs)
qed

lemma parameters_cong:
  assumes "architecture m = architecture m'" and "length (bert m) = length (bert m')"
  shows "parameters m = parameters m'"
proof -
  from assms(1) have lc: "length (classifier m) = length (classifier m')"
    unfolding architecture_def by (rule map_eq_imp_length_eq)
  have "module_refs k (classifier m ! k) = module_refs k (classifier m' ! k)"
    if "k < length (classifier m)" for k
  proof -
    from assms(1) that lc have "kind_of (classifier m ! k) = kind_of (classifier m' ! k)"
      unfolding architecture_def by (metis nth_map)
    then show ?thesis by (cases "classifier m ! k"; cases "classifier m' ! k") simp_all
  qed
  then have e: "map (\<lambda>k. module_refs k (classifier m ! k)) [0..<length (classifier m)] =
        map (\<lambda>k. module_refs k (classifier m' ! k)) [0..<length (classifier m)]"
    by (intro map_cong refl) simp
  show ?thesis by (simp only: parameters_def lc [symmetric] assms(2) e)
qed

subsection \<open>A training step\<close>

lemma map_param_unchanged:
  assumes "\<And>p. get_param m r = Some p \<Longrightarrow> f p = p"
  shows "map_param f r m = m"
proof (rule model_eq)
  show "architecture (map_param f r m) = architecture m" by simp
  show "training (map_param f r m) = training m" by simp
  fix r'
  show "get_param (map_param f r m) r' = get_param m r'"
    using assms by (cases "get_param m r") (auto simp: get_param_map_param)
qed

lemma length_bert_map_param [simp]: "length (bert (map_param f r m)) = length (bert m)"
  by (cases r) (simp_all add: map_param_def)

lemma length_bert_fold [simp]:
  "length (bert (fold (\<lambda>r. map_param (F r) r) rs m)) = length (bert m)"
  by (induction rs arbitrary: m) simp_all

lemma trainable_params_cong:
  assumes a: "architecture m = architecture m'" and l: "length (bert m) = length (bert m')"
    and g: "\<And>r. map_option requires_grad (get_param m r) = map_option requires_grad (get_param m' r)"
  shows "trainable_params m = trainable_params m'"
proof -
  have "(case get_param m r of Some p \<Rightarrow> requires_grad p | None \<Rightarrow> False) =
        (case get_param m' r of Some p \<Rightarrow> requires_grad p | None \<Rightarrow> False)" for r
    using g [of r] by (cases "get_param m r"; cases "get_param m' r") simp_all
  then show ?thesis
    unfolding trainable_params_def parameters_cong [OF a l] by simp
qed

lemma get_param_training [simp]: "get_param (m\<lparr>training := b\<rparr>) r = get_param m r"
  by (cases r) (simp_all add: get_param_def)

lemma trainable_params_training [simp]: "trainable_params (m\<lparr>training := b\<rparr>) = trainable_params m"
  by (rule trainable_params_cong) (simp_all add: architecture_def)

lemma trainable_valid:
  "r \<in> set (trainable_params m) \<longleftrightarrow> (\<exists>p. get_param m r = Some p \<and> requires_grad p)"
  by (auto simp: trainable_params_def parameters_valid split: option.splits)

lemma distinct_trainable_params: "distinct (trainable_params m)"
  unfolding trainable_params_def by (rule distinct_filter [OF distinct_parameters])

lemma get_param_cleared: "get_param (cleared m) r = map_option clear_grad (get_param m r)"
  by (cases r) (auto simp: get_param_def cleared_def split: Module.splits)

lemma architecture_cleared [simp]: "architecture (cleared m) = architecture m"
proof -
  have "kind_of (clear_module md) = kind_of md" for md :: "'a Module" by (cases md) simp_all
  then show ?thesis by (simp add: architecture_def cleared_def)
qed

lemma training_cleared [simp]: "training (cleared m) = training m"
  by (simp add: cleared_def)

text \<open>Clearing the gradients of the optimizer's parameters, when these are the trainable ones.\<close>

lemma zero_grad_cleared:
  assumes "param_groups opt = trainable_params m"
  shows "zero_grad opt m = cleared m"
proof (rule model_eq)
  show "architecture (zero_grad opt m) = architecture (cleared m)" by simp
  show "training (zero_grad opt m) = training (cleared m)" by simp
  fix r
  show "get_param (zero_grad opt m) r = get_param (cleared m) r"
    unfolding zero_grad_def assms get_param_cleared
    by (cases "get_param m r")
       (auto simp: get_param_fold [OF distinct_trainable_params] trainable_valid clear_grad_def)
qed

text \<open>What \<open>backward\<close> leaves on a model whose gradients are cleared.\<close>

lemma backward_cleared:
  "backward T (cleared m) input_ids attention_mask lbls =
     fold (\<lambda>r. map_param (\<lambda>p. p\<lparr>grad := Some (autograd T (cleared m) input_ids attention_mask lbls r)\<rparr>) r)
       (trainable_params m) m"
proof (rule model_eq)
  let ?G = "autograd T (cleared m) input_ids attention_mask lbls"
  show "architecture (backward T (cleared m) input_ids attention_mask lbls) =
        architecture (fold (\<lambda>r. map_param (\<lambda>p. p\<lparr>grad := Some (?G r)\<rparr>) r) (trainable_params m) m)"
    by simp
  show "training (backward T (cleared m) input_ids attention_mask lbls) =
        training (fold (\<lambda>r. map_param (\<lambda>p. p\<lparr>grad := Some (?G r)\<rparr>) r) (trainable_params m) m)"
    by simp
  fix r
  have l: "get_param (backward T (cleared m) input_ids attention_mask lbls) r =
        map_option (receive_grad T (?G r) \<circ> clear_grad) (get_param m r)"
    unfolding backward_def
    by (simp add: get_param_fold [OF distinct_parameters] parameters_valid get_param_cleared
        option.map_comp)
  have e: "(receive_grad T (?G r) \<circ> clear_grad) p =
        (if requires_grad p then p\<lparr>grad := Some (?G r)\<rparr> else p)" for p
    by (simp add: receive_grad_def clear_grad_def)
  show "get_param (backward T (cleared m) input_ids attention_mask lbls) r =
        get_param (fold (\<lambda>r. map_param (\<lambda>p. p\<lparr>grad := Some (?G r)\<rparr>) r) (trainable_params m) m) r"
    unfolding l
    by (cases "get_param m r")
       (auto simp: get_param_fold [OF distinct_trainable_params] trainable_valid
          receive_grad_def clear_grad_def)
qed

text \<open>A step of the optimizer over parameters that hold the gradients \<open>g\<close>.\<close>

lemma map_param_swap:
  "r \<noteq> r' \<Longrightarrow> map_param f r (map_param h r' m) = map_param h r' (map_param f r m)"
  by (rule model_eq) (auto simp: get_param_map_param)

lemma map_param_twice: "map_param f r (map_param h r m) = map_param (f \<circ> h) r m"
  by (rule model_eq) (auto simp: get_param_map_param option.map_comp)

lemma map_param_fold_swap:
  "r \<notin> set rs \<Longrightarrow>
   map_param f r (fold (\<lambda>r. map_param (F r) r) rs m) = fold (\<lambda>r. map_param (F r) r) rs (map_param f r m)"
proof (induction rs arbitrary: m)
  case Nil
  then show ?case by simp
next
  case (Cons a rs)
  then have "a \<noteq> r" and "r \<notin> set rs" by auto
  with Cons.IH [of "map_param (F a) a m"] show ?case
    by (simp add: map_param_swap [of a r])
qed

lemma step_with_grads:
  "distinct rs \<Longrightarrow>
   fold (step_param T) rs (fold (\<lambda>r. map_param (\<lambda>p. p\<lparr>grad := Some (g r)\<rparr>) r) rs m, s) =
   fold (train_param T g) rs (m, s)"
proof (induction rs arbitrary: m s)
  case Nil
  then show ?case by simp
next
  case (Cons r rs)
  let ?set = "\<lambda>r. map_param (\<lambda>p. p\<lparr>grad := Some (g r)\<rparr>) r"
  from Cons.prems have d: "distinct rs" and n: "r \<notin> set rs" by simp_all
  let ?m1 = "fold ?set rs (?set r m)"
  have gp: "get_param ?m1 r = map_option (\<lambda>p. p\<lparr>grad := Some (g r)\<rparr>) (get_param m r)"
    using n by (simp add: get_param_fold [OF d] get_param_map_param)
  show ?case
  proof (cases "get_param m r")
    case None
    then have "?set r m = m" by (intro map_param_unchanged) simp
    moreover from None gp have "step_param T r (?m1, s) = (?m1, s)" by (simp add: step_param_def)
    moreover from None have "train_param T g r (m, s) = (m, s)" by (simp add: train_param_def)
    ultimately show ?thesis using Cons.IH [OF d, of m s] by simp
  next
    case (Some p)
    obtain d' s' where au: "adam_update T s r (data p) (g r) = (d', s')"
      by (cases "adam_update T s r (data p) (g r)")
    let ?m' = "map_param (\<lambda>q. q\<lparr>data := d', grad := Some (g r)\<rparr>) r m"
    have "step_param T r (?m1, s) = (map_param (\<lambda>q. q\<lparr>data := d'\<rparr>) r ?m1, s')"
      using Some gp au by (simp add: step_param_def)
    also have "map_param (\<lambda>q. q\<lparr>data := d'\<rparr>) r ?m1 =
        fold ?set rs (map_param (\<lambda>q. q\<lparr>data := d'\<rparr>) r (?set r m))"
      using n by (rule map_param_fold_swap)
    also have "map_param (\<lambda>q. q\<lparr>data := d'\<rparr>) r (?set r m) = ?m'"
    proof -
      have "(\<lambda>q. q\<lparr>data := d'\<rparr>) \<circ> (\<lambda>p. p\<lparr>grad := Some (g r)\<rparr>) =
            (\<lambda>q::'a Parameter. q\<lparr>data := d', grad := Some (g r)\<rparr>)"
        by (rule ext) simp
      then show ?thesis by (simp only: map_param_twice)
    qed
    finally have st: "step_param T r (?m1, s) = (fold ?set rs ?m', s')" .
    have tp: "train_param T g r (m, s) = (?m', s')"
      using Some au by (simp add: train_param_def)
    from Cons.IH [OF d, of ?m' s'] st tp show ?thesis by simp
  qed
qed

text \<open>The three calls of a training batch together are a training step.\<close>

lemma step_backward_zero_grad:
  assumes "param_groups opt = trainable_params m"
  shows "step T opt (backward T (zero_grad opt m) input_ids attention_mask lbls) =
         training_step T (m, opt) input_ids attention_mask lbls"
  unfolding zero_grad_cleared [OF assms] backward_cleared step_def training_step_def assms
  by (simp add: step_with_grads [OF distinct_trainable_params] Let_def)

lemma train_param_facts:
  "architecture (fst (train_param T g r ms)) = architecture (fst ms) \<and>
   training (fst (train_param T g r ms)) = training (fst ms) \<and>
   length (bert (fst (train_param T g r ms))) = length (bert (fst ms)) \<and>
   (\<forall>r'. map_option requires_grad (get_param (fst (train_param T g r ms)) r') =
         map_option requires_grad (get_param (fst ms) r'))"
  by (auto simp: train_param_def get_param_map_param option.map_comp comp_def
      split: option.splits prod.splits)

lemma fold_train_param:
  "architecture (fst (fold (train_param T g) rs ms)) = architecture (fst ms) \<and>
   training (fst (fold (train_param T g) rs ms)) = training (fst ms) \<and>
   length (bert (fst (fold (train_param T g) rs ms))) = length (bert (fst ms)) \<and>
   (\<forall>r'. map_option requires_grad (get_param (fst (fold (train_param T g) rs ms)) r') =
         map_option requires_grad (get_param (fst ms) r'))"
proof (induction rs arbitrary: ms)
  case Nil
  then show ?case by simp
next
  case (Cons r rs)
  from Cons.IH [of "train_param T g r ms"] train_param_facts [of T g r ms]
  show ?case by simp
qed

text \<open>A training step keeps the shape of the model and its trainable parameters.\<close>

lemma training_step_facts:
  assumes "training_step T (m, opt) input_ids attention_mask lbls = (m', opt')"
  shows "architecture m' = architecture m \<and> training m' = training m \<and>
         trainable_params m' = trainable_params m \<and>
         param_groups opt' = param_groups opt \<and> step_count opt' = step_count opt + 1"
proof -
  let ?g = "autograd T (cleared m) input_ids attention_mask lbls"
  obtain m1 s1 where f: "fold (train_param T ?g) (trainable_params m) (m, state opt) = (m1, s1)"
    by (cases "fold (train_param T ?g) (trainable_params m) (m, state opt)")
  with assms have m': "m' = m1" and opt': "opt' = opt\<lparr>state := s1, step_count := step_count opt + 1\<rparr>"
    by (simp_all add: training_step_def)
  note ff = fold_train_param [of T ?g "trainable_params m" "(m, state opt)", unfolded f]
  from ff have "trainable_params m1 = trainable_params m"
    by (intro trainable_params_cong) simp_all
  with ff m' opt' show ?thesis by simp
qed

text \<open>The logits do not depend on the gradients that the parameters hold.\<close>

lemma module_forward_clear [simp]: "module_forward (clear_module md) rows = module_forward md rows"
  by (cases md) (simp_all add: clear_grad_def)

lemma sequential_forward_clear [simp]:
  "sequential_forward (map clear_module mds) rows = sequential_forward mds rows"
  by (induction mds arbitrary: rows) (simp_all split: sum.splits)

lemma forward_cleared [simp]: "forward T (cleared m) input_ids attention_mask = forward T m input_ids attention_mask"
proof -
  have "data \<circ> clear_grad = (data :: 'a Parameter \<Rightarrow> 'a entries)"
    by (rule ext) (simp add: clear_grad_def)
  then show ?thesis by (simp add: forward_def cleared_def)
qed

text \<open>
  \<open>backward\<close> parameter by parameter: one that requires a gradient holds the gradient of
  the loss, added to the gradient it held; the others are as they were.
\<close>

lemma backward_params:
  "get_param (backward T m input_ids attention_mask lbls) r =
     map_option
       (\<lambda>p. if requires_grad p
            then p\<lparr>grad := Some (case grad p of
                                   None \<Rightarrow> autograd T m input_ids attention_mask lbls r
                                 | Some g0 \<Rightarrow> accumulate T g0 (autograd T m input_ids attention_mask lbls r))\<rparr>
            else p)
       (get_param m r)"
  unfolding backward_def
  by (cases "get_param m r")
     (auto simp: get_param_fold [OF distinct_parameters] parameters_valid receive_grad_def)

text \<open>A step of the optimizer skips a parameter that holds no gradient.\<close>

lemma step_param_skips:
  "get_param m r = Some p \<Longrightarrow> grad p = None \<Longrightarrow> step_param T r (m, s) = (m, s)"
  by (simp add: step_param_def)

lemma step_param_updates:
  "get_param m r = Some p \<Longrightarrow> grad p = Some g \<Longrightarrow>
   step_param T r (m, s) =
     (map_param (\<lambda>q. q\<lparr>data := fst (adam_update T s r (data p) g)\<rparr>) r m,
      snd (adam_update T s r (data p) g))"
  by (simp add: step_param_def split: prod.splits)

subsection \<open>One batch\<close>

lemma count_hits:
  "map argmax logits = map Inr preds \<Longrightarrow> length lbls = length logits \<Longrightarrow>
   length (filter (\<lambda>pl. Tensor0 (int (fst pl)) = snd pl) (zip preds lbls)) =
   length (filter hit (zip logits lbls))"
proof (induction logits arbitrary: preds lbls)
  case Nil
  then show ?case by simp
next
  case (Cons row logits)
  from Cons.prems(1) obtain p ps where preds: "preds = p # ps" and p: "argmax row = Inr p"
    and ps: "map argmax logits = map Inr ps" by (cases preds) auto
  from Cons.prems(2) obtain l ls where lbls: "lbls = l # ls" and ls: "length ls = length logits"
    by (cases lbls) auto
  from Cons.IH [OF ps ls] preds lbls p show ?case by (simp add: hit_def)
qed

lemma add_correct_Inr:
  assumes "add_correct tot logits lbls = Inr tot'"
  shows "total_correct tot' = total_correct tot + length (filter hit (zip logits lbls)) \<and>
         total_examples tot' = total_examples tot + length (zip logits lbls) \<and>
         total_loss tot' = total_loss tot \<and>
         length logits = length lbls"
proof -
  from assms obtain preds c where pr: "predictions logits = Inr preds"
    and c: "count_correct preds lbls = Inr c"
    and t: "tot' = tot\<lparr>total_correct := total_correct tot + c,
                        total_examples := total_examples tot + length lbls\<rparr>"
    by (auto simp: add_correct_def split: sum.splits)
  from pr have m: "map argmax logits = map Inr preds"
    by (simp add: predictions_def map_err_Inr_iff)
  from c have len: "length preds = length lbls"
    and cv: "c = length (filter (\<lambda>pl. Tensor0 (int (fst pl)) = snd pl) (zip preds lbls))"
    by (auto simp: count_correct_def split: if_splits)
  from predictions_length [OF pr] len have ll: "length lbls = length logits" by simp
  from count_hits [OF m ll] cv t ll show ?thesis by simp
qed

lemma add_correct_total:
  assumes "length logits = length lbls" and "list_all (\<lambda>row. row \<noteq> []) logits"
  shows "\<exists>tot'. add_correct tot logits lbls = Inr tot'"
proof -
  from predictions_total [OF assms(2)] obtain preds where pr: "predictions logits = Inr preds"
    by blast
  from predictions_length [OF pr] assms(1) have "length preds = length lbls" by simp
  with pr show ?thesis by (simp add: add_correct_def count_correct_def)
qed

lemma add_loss_fields:
  "total_loss (add_loss tot loss) = total_loss tot + loss \<and>
   total_correct (add_loss tot loss) = total_correct tot \<and>
   total_examples (add_loss tot loss) = total_examples tot"
  by (simp add: add_loss_def)

lemma batch_field_Inr:
  "batch_field batch key = Inr ts \<longleftrightarrow> map (\<lambda>item. dict_get item key) batch = map Inr ts"
  by (simp add: batch_field_def map_err_Inr_iff)

lemma batch_field_length: "batch_field batch key = Inr ts \<Longrightarrow> length ts = length batch"
  by (simp add: batch_field_def map_err_length)

lemma batch_tensors_Inr:
  "batch_tensors batch = Inr (ids, am, lbls) \<longleftrightarrow>
     batch_field batch ''input_ids'' = Inr ids \<and>
     batch_field batch ''attention_mask'' = Inr am \<and>
     batch_field batch ''labels'' = Inr lbls"
  by (auto simp: batch_tensors_def split: sum.splits)

text \<open>What a training batch keeps, whatever the optimizer holds.\<close>

lemma train_batch_facts:
  assumes "train_batch T (m, opt, tot) batch = Inr (m', opt', tot')"
  shows "architecture m' = architecture m \<and> training m' = training m \<and>
     param_groups opt' = param_groups opt \<and> step_count opt' = step_count opt + 1 \<and>
     (frozen m \<and> list_all head_ref (param_groups opt) \<longrightarrow> bert m' = bert m)"
proof -
  from assms obtain ids am lbls logits where
    i: "batch_field batch ''input_ids'' = Inr ids"
    and k: "batch_field batch ''attention_mask'' = Inr am"
    and l: "batch_field batch ''labels'' = Inr lbls"
    and f: "forward T (zero_grad opt m) ids am = Inr logits"
    by (auto simp: train_batch_def Let_def split: sum.splits prod.splits)
  let ?m1 = "zero_grad opt m"
  let ?m2 = "backward T ?m1 ids am lbls"
  obtain m3 opt3 where st: "step T opt ?m2 = (m3, opt3)" by (cases "step T opt ?m2")
  from assms i k l f st have mm: "m' = m3" and oo: "opt' = opt3"
    by (auto simp: train_batch_def Let_def split: sum.splits)
  note sf = step_facts [of T opt ?m2]
  have fr: "frozen m \<and> list_all head_ref (param_groups opt) \<longrightarrow> bert m' = bert m"
  proof
    assume h: "frozen m \<and> list_all head_ref (param_groups opt)"
    then have z: "bert ?m1 = bert m" by (simp add: bert_zero_grad)
    with h have "frozen ?m1" by (simp add: frozen_def)
    then have "bert ?m2 = bert ?m1" by (rule bert_backward)
    with z sf st h mm show "bert m' = bert m" by simp
  qed
  from sf st mm oo fr show ?thesis by simp
qed

text \<open>
  A training batch of the loop, with an optimizer over the trainable parameters: the
  totals grow by the outcome of the model as it stood, and the model and the optimizer
  have made a training step.
\<close>

lemma train_batch_refines:
  assumes tb: "train_batch T (m, opt, tot) batch = Inr (m', opt', tot')"
    and inv: "param_groups opt = trainable_params m"
  shows "\<exists>ids am lbls out.
     batch_tensors batch = Inr (ids, am, lbls) \<and>
     batch_outcome T m batch = Inr out \<and>
     training_step T (m, opt) ids am lbls = (m', opt') \<and>
     total_loss tot' = total_loss tot + loss_of out \<and>
     total_correct tot' = total_correct tot + length (filter hit (zip (logits_of out) (labels_of out))) \<and>
     total_examples tot' = total_examples tot + length (zip (logits_of out) (labels_of out)) \<and>
     length (logits_of out) = length (labels_of out)"
proof -
  from tb obtain ids am lbls logits where
    i: "batch_field batch ''input_ids'' = Inr ids"
    and k: "batch_field batch ''attention_mask'' = Inr am"
    and l: "batch_field batch ''labels'' = Inr lbls"
    and f: "forward T (zero_grad opt m) ids am = Inr logits"
    by (auto simp: train_batch_def Let_def split: sum.splits prod.splits)
  from f have f': "forward T m ids am = Inr logits"
    by (simp add: zero_grad_cleared [OF inv])
  let ?loss = "cross_entropy T logits lbls"
  let ?out = "\<lparr>logits_of = logits, labels_of = lbls, loss_of = ?loss\<rparr>"
  obtain m3 opt3 where st: "step T opt (backward T (zero_grad opt m) ids am lbls) = (m3, opt3)"
    by (cases "step T opt (backward T (zero_grad opt m) ids am lbls)")
  from tb i k l f st have
    a: "add_correct (add_loss tot ?loss) logits lbls = Inr tot'" and mm: "m' = m3" and oo: "opt' = opt3"
    by (auto simp: train_batch_def Let_def split: sum.splits)
  note ac = add_correct_Inr [OF a]
  have bt: "batch_tensors batch = Inr (ids, am, lbls)" by (simp add: batch_tensors_Inr i k l)
  have bo: "batch_outcome T m batch = Inr ?out" by (simp add: batch_outcome_def bt f')
  have ts: "training_step T (m, opt) ids am lbls = (m', opt')"
    using st mm oo by (simp add: step_backward_zero_grad [OF inv])
  from bt bo ts ac show ?thesis by (simp add: add_loss_fields)
qed

lemma train_batch_total:
  assumes p: "pooler_shape T" and a: "architecture m = head_architecture nc" and nc: "0 < nc"
    and i: "batch_field batch ''input_ids'' = Inr ids"
    and k: "batch_field batch ''attention_mask'' = Inr am"
    and l: "batch_field batch ''labels'' = Inr lbls"
  shows "\<exists>m' opt' tot'. train_batch T (m, opt, tot) batch = Inr (m', opt', tot')"
proof -
  let ?m1 = "zero_grad opt m"
  from a have a1: "architecture ?m1 = head_architecture nc" by simp
  from forward_shape [OF p a1, of ids am] obtain logits where
    f: "forward T ?m1 ids am = Inr logits" and ll: "length logits = length ids"
    and w: "list_all (\<lambda>row. length row = nc) logits" by blast
  from batch_field_length [OF i] batch_field_length [OF l] ll
  have len: "length logits = length lbls" by simp
  from w nc have ne: "list_all (\<lambda>row. row \<noteq> []) logits" by (auto simp: list_all_iff)
  let ?loss = "cross_entropy T logits lbls"
  from add_correct_total [OF len ne, of "add_loss tot ?loss"] obtain tot' where
    ac: "add_correct (add_loss tot ?loss) logits lbls = Inr tot'" by blast
  obtain m3 opt3 where st: "step T opt (backward T ?m1 ids am lbls) = (m3, opt3)"
    by (cases "step T opt (backward T ?m1 ids am lbls)")
  from i k l f ac st show ?thesis by (simp add: train_batch_def Let_def)
qed

text \<open>Validation and test batches.\<close>

lemma val_batch_refines:
  assumes "val_batch T m tot batch = Inr tot'"
  shows "\<exists>out.
     batch_outcome T m batch = Inr out \<and>
     total_loss tot' = total_loss tot + loss_of out \<and>
     total_correct tot' = total_correct tot + length (filter hit (zip (logits_of out) (labels_of out))) \<and>
     total_examples tot' = total_examples tot + length (zip (logits_of out) (labels_of out)) \<and>
     length (logits_of out) = length (labels_of out)"
proof -
  from assms obtain ids am lbls logits where
    i: "batch_field batch ''input_ids'' = Inr ids"
    and k: "batch_field batch ''attention_mask'' = Inr am"
    and l: "batch_field batch ''labels'' = Inr lbls"
    and f: "forward T m ids am = Inr logits"
    and a: "add_correct (add_loss tot (cross_entropy T logits lbls)) logits lbls = Inr tot'"
    by (auto simp: val_batch_def Let_def split: sum.splits)
  note ac = add_correct_Inr [OF a]
  have bt: "batch_tensors batch = Inr (ids, am, lbls)" by (simp add: batch_tensors_Inr i k l)
  have "batch_outcome T m batch =
      Inr \<lparr>logits_of = logits, labels_of = lbls, loss_of = cross_entropy T logits lbls\<rparr>"
    by (simp add: batch_outcome_def bt f)
  with ac show ?thesis by (simp add: add_loss_fields)
qed

lemma test_batch_refines:
  assumes "test_batch T m tot batch = Inr tot'"
  shows "\<exists>out.
     batch_outcome T m batch = Inr out \<and>
     total_correct tot' = total_correct tot + length (filter hit (zip (logits_of out) (labels_of out))) \<and>
     total_examples tot' = total_examples tot + length (zip (logits_of out) (labels_of out)) \<and>
     length (logits_of out) = length (labels_of out)"
proof -
  from assms obtain ids am lbls logits where
    i: "batch_field batch ''input_ids'' = Inr ids"
    and k: "batch_field batch ''attention_mask'' = Inr am"
    and l: "batch_field batch ''labels'' = Inr lbls"
    and f: "forward T m ids am = Inr logits"
    and a: "add_correct tot logits lbls = Inr tot'"
    by (auto simp: test_batch_def split: sum.splits)
  note ac = add_correct_Inr [OF a]
  have bt: "batch_tensors batch = Inr (ids, am, lbls)" by (simp add: batch_tensors_Inr i k l)
  have "batch_outcome T m batch =
      Inr \<lparr>logits_of = logits, labels_of = lbls, loss_of = cross_entropy T logits lbls\<rparr>"
    by (simp add: batch_outcome_def bt f)
  with ac show ?thesis by simp
qed

lemma eval_batch_total:
  assumes p: "pooler_shape T" and a: "architecture m = head_architecture nc" and nc: "0 < nc"
    and r: "readable batch"
  shows "(\<exists>tot'. val_batch T m tot batch = Inr tot') \<and> (\<exists>tot'. test_batch T m tot batch = Inr tot')"
proof -
  from r obtain ids am lbls where
    i: "batch_field batch ''input_ids'' = Inr ids" and k: "batch_field batch ''attention_mask'' = Inr am"
    and l: "batch_field batch ''labels'' = Inr lbls" by (auto simp: readable_def)
  from forward_shape [OF p a, of ids am] obtain logits where
    f: "forward T m ids am = Inr logits" and ll: "length logits = length ids"
    and w: "list_all (\<lambda>row. length row = nc) logits" by blast
  from batch_field_length [OF i] batch_field_length [OF l] ll
  have len: "length logits = length lbls" by simp
  from w nc have ne: "list_all (\<lambda>row. row \<noteq> []) logits" by (auto simp: list_all_iff)
  from add_correct_total [OF len ne] i k l f show ?thesis
    by (simp add: val_batch_def test_batch_def Let_def)
qed

text \<open>The outcome of a model on a batch: its labels are those of the batch, its logits have the width of the last layer.\<close>

lemma batch_outcome_facts:
  assumes bo: "batch_outcome T m batch = Inr out"
  shows "map Inr (labels_of out) = map (\<lambda>item. dict_get item ''labels'') batch \<and>
         (pooler_shape T \<and> architecture m = head_architecture nc \<longrightarrow>
            list_all (\<lambda>row. length row = nc) (logits_of out) \<and> length (logits_of out) = length batch)"
proof -
  from bo obtain ids am lbls logits where
    bt: "batch_tensors batch = Inr (ids, am, lbls)"
    and f: "forward T m ids am = Inr logits"
    and o: "out = \<lparr>logits_of = logits, labels_of = lbls, loss_of = cross_entropy T logits lbls\<rparr>"
    by (auto simp: batch_outcome_def split: sum.splits)
  from bt have l: "batch_field batch ''labels'' = Inr lbls"
    and i: "batch_field batch ''input_ids'' = Inr ids" by (simp_all add: batch_tensors_Inr)
  from l o have 1: "map Inr (labels_of out) = map (\<lambda>item. dict_get item ''labels'') batch"
    by (simp add: batch_field_Inr)
  have 2: "pooler_shape T \<and> architecture m = head_architecture nc \<longrightarrow>
            list_all (\<lambda>row. length row = nc) (logits_of out) \<and> length (logits_of out) = length batch"
  proof
    assume h: "pooler_shape T \<and> architecture m = head_architecture nc"
    then have p: "pooler_shape T" and a: "architecture m = head_architecture nc" by simp_all
    from forward_shape [OF p a, of ids am] f batch_field_length [OF i] o
    show "list_all (\<lambda>row. length row = nc) (logits_of out) \<and> length (logits_of out) = length batch"
      by auto
  qed
  from 1 2 show ?thesis by (rule conjI)
qed

subsection \<open>A pass over a list of batches\<close>

lemma examples_of_Nil [simp]: "examples_of [] = []"
  by (simp add: examples_of_def)

lemma examples_of_Cons [simp]:
  "examples_of (out # outs) = zip (logits_of out) (labels_of out) @ examples_of outs"
  by (simp add: examples_of_def)

lemma train_batches_facts:
  "train_batches T (m, opt, tot) bs = Inr (m', opt', tot') \<Longrightarrow>
   architecture m' = architecture m \<and> training m' = training m \<and>
   param_groups opt' = param_groups opt \<and>
   step_count opt' = step_count opt + length bs \<and>
   (frozen m \<and> list_all head_ref (param_groups opt) \<longrightarrow> bert m' = bert m)"
proof (induction bs arbitrary: m opt tot)
  case Nil
  then show ?case by simp
next
  case (Cons b bs)
  from Cons.prems obtain m1 opt1 tot1 where
    one: "train_batch T (m, opt, tot) b = Inr (m1, opt1, tot1)"
    and rest: "train_batches T (m1, opt1, tot1) bs = Inr (m', opt', tot')"
    by (auto split: sum.splits)
  note f = train_batch_facts [OF one]
  note ih = Cons.IH [OF rest]
  have fr': "frozen m \<and> list_all head_ref (param_groups opt) \<longrightarrow> bert m' = bert m"
  proof
    assume h: "frozen m \<and> list_all head_ref (param_groups opt)"
    with f have b1: "bert m1 = bert m" by blast
    with h have "frozen m1" by (simp add: frozen_def)
    with h f ih b1 show "bert m' = bert m" by simp
  qed
  from ih f fr' show ?case by simp
qed

text \<open>
  The training loop over the batches of a pass, with an optimizer over the trainable
  parameters, is a training pass; its totals are those of the outcomes.
\<close>

lemma train_batches_refines:
  "train_batches T (m, opt, tot) bs = Inr (m', opt', tot') \<Longrightarrow>
   param_groups opt = trainable_params m \<Longrightarrow>
   \<exists>outs.
     training_pass T (m, opt) bs = Inr ((m', opt'), outs) \<and>
     length outs = length bs \<and>
     total_loss tot' = total_loss tot + sum_list (map loss_of outs) \<and>
     total_correct tot' = total_correct tot + length (filter hit (examples_of outs)) \<and>
     total_examples tot' = total_examples tot + length (examples_of outs) \<and>
     map Inr (map snd (examples_of outs)) = map (\<lambda>item. dict_get item ''labels'') (concat bs) \<and>
     param_groups opt' = trainable_params m' \<and>
     (pooler_shape T \<and> architecture m = head_architecture nc \<longrightarrow>
        list_all (\<lambda>row. length row = nc) (map fst (examples_of outs)))"
proof (induction bs arbitrary: m opt tot)
  case Nil
  then show ?case by simp
next
  case (Cons b bs)
  from Cons.prems(1) obtain m1 opt1 tot1 where
    one: "train_batch T (m, opt, tot) b = Inr (m1, opt1, tot1)"
    and rest: "train_batches T (m1, opt1, tot1) bs = Inr (m', opt', tot')"
    by (auto split: sum.splits)
  from train_batch_refines [OF one Cons.prems(2)] obtain ids am lbls out where
    bt: "batch_tensors b = Inr (ids, am, lbls)"
    and bo: "batch_outcome T m b = Inr out"
    and ts: "training_step T (m, opt) ids am lbls = (m1, opt1)"
    and t1: "total_loss tot1 = total_loss tot + loss_of out"
    and t2: "total_correct tot1 = total_correct tot + length (filter hit (zip (logits_of out) (labels_of out)))"
    and t3: "total_examples tot1 = total_examples tot + length (zip (logits_of out) (labels_of out))"
    and len: "length (logits_of out) = length (labels_of out)"
    by blast
  note sf = training_step_facts [OF ts]
  from sf Cons.prems(2) have inv1: "param_groups opt1 = trainable_params m1" by simp
  from Cons.IH [OF rest inv1] obtain outs where
    p: "training_pass T (m1, opt1) bs = Inr ((m', opt'), outs)"
    and n: "length outs = length bs"
    and u1: "total_loss tot' = total_loss tot1 + sum_list (map loss_of outs)"
    and u2: "total_correct tot' = total_correct tot1 + length (filter hit (examples_of outs))"
    and u3: "total_examples tot' = total_examples tot1 + length (examples_of outs)"
    and lb: "map Inr (map snd (examples_of outs)) = map (\<lambda>item. dict_get item ''labels'') (concat bs)"
    and inv': "param_groups opt' = trainable_params m'"
    and w: "pooler_shape T \<and> architecture m1 = head_architecture nc \<longrightarrow>
        list_all (\<lambda>row. length row = nc) (map fst (examples_of outs))"
    by blast
  note bf = batch_outcome_facts [OF bo, of nc]
  have pass: "training_pass T (m, opt) (b # bs) = Inr ((m', opt'), out # outs)"
    by (simp add: bo bt ts p)
  have labs: "map Inr (map snd (examples_of (out # outs))) =
      map (\<lambda>item. dict_get item ''labels'') (concat (b # bs))"
    using bf lb len by simp
  have width: "pooler_shape T \<and> architecture m = head_architecture nc \<longrightarrow>
        list_all (\<lambda>row. length row = nc) (map fst (examples_of (out # outs)))"
    using bf w sf len by simp
  have "length (out # outs) = length (b # bs)" using n by simp
  moreover have "total_loss tot' = total_loss tot + sum_list (map loss_of (out # outs))"
    using t1 u1 by simp
  moreover have "total_correct tot' = total_correct tot + length (filter hit (examples_of (out # outs)))"
    using t2 u2 by simp
  moreover have "total_examples tot' = total_examples tot + length (examples_of (out # outs))"
    using t3 u3 by simp
  ultimately show ?case using pass labs inv' width by blast
qed

lemma train_batches_total:
  assumes p: "pooler_shape T" and nc: "0 < nc"
  shows "architecture m = head_architecture nc \<Longrightarrow> list_all readable bs \<Longrightarrow>
         \<exists>m' opt' tot'. train_batches T (m, opt, tot) bs = Inr (m', opt', tot')"
proof (induction bs arbitrary: m opt tot)
  case Nil
  then show ?case by simp
next
  case (Cons b bs)
  from Cons.prems(2) have rb: "readable b" and rbs: "list_all readable bs" by simp_all
  from rb obtain ids am lbls where
    "batch_field b ''input_ids'' = Inr ids" "batch_field b ''attention_mask'' = Inr am"
    "batch_field b ''labels'' = Inr lbls" by (auto simp: readable_def)
  from train_batch_total [OF p Cons.prems(1) nc this, of opt tot] obtain m1 opt1 tot1 where
    one: "train_batch T (m, opt, tot) b = Inr (m1, opt1, tot1)" by blast
  from train_batch_facts [OF one] Cons.prems(1) have "architecture m1 = head_architecture nc" by auto
  from Cons.IH [OF this rbs, of opt1 tot1] one show ?case by simp
qed

text \<open>The validation loop and the test loop over the batches of a pass are evaluation passes.\<close>

lemma val_batches_refines:
  "val_batches T m tot bs = Inr tot' \<Longrightarrow>
   \<exists>outs.
     evaluation_pass T m bs = Inr outs \<and>
     length outs = length bs \<and>
     total_loss tot' = total_loss tot + sum_list (map loss_of outs) \<and>
     total_correct tot' = total_correct tot + length (filter hit (examples_of outs)) \<and>
     total_examples tot' = total_examples tot + length (examples_of outs) \<and>
     map Inr (map snd (examples_of outs)) = map (\<lambda>item. dict_get item ''labels'') (concat bs) \<and>
     (pooler_shape T \<and> architecture m = head_architecture nc \<longrightarrow>
        list_all (\<lambda>row. length row = nc) (map fst (examples_of outs)))"
proof (induction bs arbitrary: tot)
  case Nil
  then show ?case by (simp add: evaluation_pass_def)
next
  case (Cons b bs)
  from Cons.prems obtain tot1 where one: "val_batch T m tot b = Inr tot1"
    and rest: "val_batches T m tot1 bs = Inr tot'" by (auto split: sum.splits)
  from val_batch_refines [OF one] obtain out where
    bo: "batch_outcome T m b = Inr out"
    and t1: "total_loss tot1 = total_loss tot + loss_of out"
    and t2: "total_correct tot1 = total_correct tot + length (filter hit (zip (logits_of out) (labels_of out)))"
    and t3: "total_examples tot1 = total_examples tot + length (zip (logits_of out) (labels_of out))"
    and len: "length (logits_of out) = length (labels_of out)"
    by blast
  from Cons.IH [OF rest] obtain outs where
    p: "evaluation_pass T m bs = Inr outs"
    and n: "length outs = length bs"
    and u1: "total_loss tot' = total_loss tot1 + sum_list (map loss_of outs)"
    and u2: "total_correct tot' = total_correct tot1 + length (filter hit (examples_of outs))"
    and u3: "total_examples tot' = total_examples tot1 + length (examples_of outs)"
    and lb: "map Inr (map snd (examples_of outs)) = map (\<lambda>item. dict_get item ''labels'') (concat bs)"
    and w: "pooler_shape T \<and> architecture m = head_architecture nc \<longrightarrow>
        list_all (\<lambda>row. length row = nc) (map fst (examples_of outs))"
    by blast
  note bf = batch_outcome_facts [OF bo, of nc]
  have pass: "evaluation_pass T m (b # bs) = Inr (out # outs)"
    using bo p by (simp add: evaluation_pass_def)
  have labs: "map Inr (map snd (examples_of (out # outs))) =
      map (\<lambda>item. dict_get item ''labels'') (concat (b # bs))"
    using bf lb len by simp
  have width: "pooler_shape T \<and> architecture m = head_architecture nc \<longrightarrow>
        list_all (\<lambda>row. length row = nc) (map fst (examples_of (out # outs)))"
    using bf w len by simp
  have "length (out # outs) = length (b # bs)" using n by simp
  moreover have "total_loss tot' = total_loss tot + sum_list (map loss_of (out # outs))"
    using t1 u1 by simp
  moreover have "total_correct tot' = total_correct tot + length (filter hit (examples_of (out # outs)))"
    using t2 u2 by simp
  moreover have "total_examples tot' = total_examples tot + length (examples_of (out # outs))"
    using t3 u3 by simp
  ultimately show ?case using pass labs width by blast
qed

lemma test_batches_refines:
  "test_batches T m tot bs = Inr tot' \<Longrightarrow>
   \<exists>outs.
     evaluation_pass T m bs = Inr outs \<and>
     length outs = length bs \<and>
     total_correct tot' = total_correct tot + length (filter hit (examples_of outs)) \<and>
     total_examples tot' = total_examples tot + length (examples_of outs) \<and>
     map Inr (map snd (examples_of outs)) = map (\<lambda>item. dict_get item ''labels'') (concat bs) \<and>
     (pooler_shape T \<and> architecture m = head_architecture nc \<longrightarrow>
        list_all (\<lambda>row. length row = nc) (map fst (examples_of outs)))"
proof (induction bs arbitrary: tot)
  case Nil
  then show ?case by (simp add: evaluation_pass_def)
next
  case (Cons b bs)
  from Cons.prems obtain tot1 where one: "test_batch T m tot b = Inr tot1"
    and rest: "test_batches T m tot1 bs = Inr tot'" by (auto split: sum.splits)
  from test_batch_refines [OF one] obtain out where
    bo: "batch_outcome T m b = Inr out"
    and t2: "total_correct tot1 = total_correct tot + length (filter hit (zip (logits_of out) (labels_of out)))"
    and t3: "total_examples tot1 = total_examples tot + length (zip (logits_of out) (labels_of out))"
    and len: "length (logits_of out) = length (labels_of out)"
    by blast
  from Cons.IH [OF rest] obtain outs where
    p: "evaluation_pass T m bs = Inr outs"
    and n: "length outs = length bs"
    and u2: "total_correct tot' = total_correct tot1 + length (filter hit (examples_of outs))"
    and u3: "total_examples tot' = total_examples tot1 + length (examples_of outs)"
    and lb: "map Inr (map snd (examples_of outs)) = map (\<lambda>item. dict_get item ''labels'') (concat bs)"
    and w: "pooler_shape T \<and> architecture m = head_architecture nc \<longrightarrow>
        list_all (\<lambda>row. length row = nc) (map fst (examples_of outs))"
    by blast
  note bf = batch_outcome_facts [OF bo, of nc]
  have pass: "evaluation_pass T m (b # bs) = Inr (out # outs)"
    using bo p by (simp add: evaluation_pass_def)
  have labs: "map Inr (map snd (examples_of (out # outs))) =
      map (\<lambda>item. dict_get item ''labels'') (concat (b # bs))"
    using bf lb len by simp
  have width: "pooler_shape T \<and> architecture m = head_architecture nc \<longrightarrow>
        list_all (\<lambda>row. length row = nc) (map fst (examples_of (out # outs)))"
    using bf w len by simp
  have "length (out # outs) = length (b # bs)" using n by simp
  moreover have "total_correct tot' = total_correct tot + length (filter hit (examples_of (out # outs)))"
    using t2 u2 by simp
  moreover have "total_examples tot' = total_examples tot + length (examples_of (out # outs))"
    using t3 u3 by simp
  ultimately show ?case using pass labs width by blast
qed

lemma eval_batches_total:
  assumes p: "pooler_shape T" and a: "architecture m = head_architecture nc" and nc: "0 < nc"
  shows "list_all readable bs \<Longrightarrow>
    (\<exists>tot'. val_batches T m tot bs = Inr tot') \<and> (\<exists>tot'. test_batches T m tot bs = Inr tot')"
proof (induction bs arbitrary: tot)
  case Nil
  then show ?case by simp
next
  case (Cons b bs)
  from Cons.prems have rb: "readable b" and rbs: "list_all readable bs" by simp_all
  from eval_batch_total [OF p a nc rb, of tot] obtain t1 t2 where
    v: "val_batch T m tot b = Inr t1" and t: "test_batch T m tot b = Inr t2" by blast
  from Cons.IH [OF rbs, of t1] Cons.IH [OF rbs, of t2] v t show ?case by simp
qed

subsection \<open>One epoch\<close>

lemma run_epoch_Inr:
  assumes "run_epoch T trl vl perm (m, opt) e = Inr ((m', opt'), elog)"
  obtains tbs m1 vbs where
    "loader_iter trl perm = Inr tbs"
    "train_batches T (m\<lparr>training := True\<rparr>, opt, totals0) tbs = Inr (m1, opt', train_totals elog)"
    "m' = m1\<lparr>training := False\<rparr>"
    "loader_len trl \<noteq> 0" "total_examples (train_totals elog) \<noteq> 0"
    "loader_iter vl [] = Inr vbs"
    "val_batches T m' totals0 vbs = Inr (val_totals elog)"
    "loader_len vl \<noteq> 0" "total_examples (val_totals elog) \<noteq> 0"
    "printed elog =
       \<lparr>epoch_number = e + 1, of_epochs = EPOCHS,
        avg_train_loss = total_loss (train_totals elog) / real (loader_len trl),
        train_acc = real (total_correct (train_totals elog)) / real (total_examples (train_totals elog)),
        avg_val_loss = total_loss (val_totals elog) / real (loader_len vl),
        val_acc = real (total_correct (val_totals elog)) / real (total_examples (val_totals elog))\<rparr>"
proof -
  from assms obtain tbs where 1: "loader_iter trl perm = Inr tbs"
    by (auto simp: run_epoch_def split: sum.splits)
  from assms 1 obtain m1 opt1 tot where
    2: "train_batches T (m\<lparr>training := True\<rparr>, opt, totals0) tbs = Inr (m1, opt1, tot)"
    by (auto simp: run_epoch_def split: sum.splits)
  from assms 1 2 obtain train_loss where 3: "py_div (total_loss tot) (loader_len trl) = Inr train_loss"
    by (auto simp: run_epoch_def split: sum.splits)
  from assms 1 2 3 obtain tr_acc where
    4: "py_div (real (total_correct tot)) (total_examples tot) = Inr tr_acc"
    by (auto simp: run_epoch_def split: sum.splits)
  from assms 1 2 3 4 obtain vbs where 5: "loader_iter vl [] = Inr vbs"
    by (auto simp: run_epoch_def split: sum.splits)
  from assms 1 2 3 4 5 obtain vtot where
    6: "val_batches T (m1\<lparr>training := False\<rparr>) totals0 vbs = Inr vtot"
    by (auto simp: run_epoch_def split: sum.splits)
  from assms 1 2 3 4 5 6 obtain val_loss where
    7: "py_div (total_loss vtot) (loader_len vl) = Inr val_loss"
    by (auto simp: run_epoch_def split: sum.splits)
  from assms 1 2 3 4 5 6 7 obtain v_acc where
    8: "py_div (real (total_correct vtot)) (total_examples vtot) = Inr v_acc"
    by (auto simp: run_epoch_def split: sum.splits)
  from assms 1 2 3 4 5 6 7 8 have
    r: "m' = m1\<lparr>training := False\<rparr>" "opt' = opt1"
      "elog = \<lparr>printed = \<lparr>epoch_number = e + 1, of_epochs = EPOCHS, avg_train_loss = train_loss,
                           train_acc = tr_acc, avg_val_loss = val_loss, val_acc = v_acc\<rparr>,
               train_totals = tot, val_totals = vtot\<rparr>"
    by (simp_all add: run_epoch_def)
  from 3 4 7 8 have d: "loader_len trl \<noteq> 0" "train_loss = total_loss tot / real (loader_len trl)"
    "total_examples tot \<noteq> 0" "tr_acc = real (total_correct tot) / real (total_examples tot)"
    "loader_len vl \<noteq> 0" "val_loss = total_loss vtot / real (loader_len vl)"
    "total_examples vtot \<noteq> 0" "v_acc = real (total_correct vtot) / real (total_examples vtot)"
    by (auto simp: py_div_def split: if_splits)
  show thesis
    by (rule that [OF 1, of m1 vbs]) (use 2 5 6 r d in simp_all)
qed

lemma run_epoch_facts:
  assumes "run_epoch T trl vl perm (m, opt) e = Inr ((m', opt'), elog)"
  shows "epoch_number (printed elog) = e + 1 \<and> of_epochs (printed elog) = EPOCHS \<and>
     architecture m' = architecture m \<and> param_groups opt' = param_groups opt \<and>
     (frozen m \<and> list_all head_ref (param_groups opt) \<longrightarrow> bert m' = bert m)"
proof -
  from assms obtain tbs m1 vbs where
    tb: "train_batches T (m\<lparr>training := True\<rparr>, opt, totals0) tbs = Inr (m1, opt', train_totals elog)"
    and m': "m' = m1\<lparr>training := False\<rparr>"
    and pr: "printed elog =
       \<lparr>epoch_number = e + 1, of_epochs = EPOCHS,
        avg_train_loss = total_loss (train_totals elog) / real (loader_len trl),
        train_acc = real (total_correct (train_totals elog)) / real (total_examples (train_totals elog)),
        avg_val_loss = total_loss (val_totals elog) / real (loader_len vl),
        val_acc = real (total_correct (val_totals elog)) / real (total_examples (val_totals elog))\<rparr>"
    by (rule run_epoch_Inr)
  note t = train_batches_facts [OF tb]
  have fr: "frozen m \<and> list_all head_ref (param_groups opt) \<longrightarrow> bert m' = bert m"
    using t m' by (simp add: frozen_def)
  from t have ar: "architecture m' = architecture m" and pg: "param_groups opt' = param_groups opt"
    using m' by simp_all
  from pr ar pg fr show ?thesis by simp
qed

subsection \<open>From a dataset to the batches of a pass\<close>

lemma getitem_fields:
  assumes g: "getitem ds (int i) = Inr item" and h: "has_fields ds"
  shows "(\<exists>t. dict_get item ''input_ids'' = Inr t) \<and>
         (\<exists>t. dict_get item ''attention_mask'' = Inr t) \<and>
         dict_get item ''labels'' = Inr (Tensor0 (labels ds ! i))"
proof -
  from g obtain r l where r: "item_of_encodings [] (encodings ds) (int i) = Inr r"
    and l: "py_getitem (labels ds) (int i) = Inr l"
    and item: "item = dict_set r ''labels'' (Tensor0 l)"
    by (auto simp: getitem_def split: sum.splits)
  from l have lv: "l = labels ds ! i" by (auto simp: py_getitem_def split: if_splits)
  from item_of_encodings_keys [OF r] have keys: "fst ` set r = fst ` set (encodings ds)" by simp
  from h keys have "''input_ids'' \<in> fst ` set r" "''attention_mask'' \<in> fst ` set r"
    by (simp_all add: has_fields_def)
  then have "map_of r ''input_ids'' \<noteq> None" "map_of r ''attention_mask'' \<noteq> None"
    by (simp_all add: map_of_eq_None_iff)
  with item lv show ?thesis
    by (auto simp: dict_get_def map_of_dict_set split: option.splits)
qed

lemma map_through:
  "map Inr items = map g order \<Longrightarrow>
   (\<And>i item. i \<in> set order \<Longrightarrow> g i = Inr item \<Longrightarrow> h item = k i) \<Longrightarrow>
   map h items = map k order"
proof (induction items arbitrary: order)
  case Nil
  then show ?case by simp
next
  case (Cons item items)
  from Cons.prems(1) obtain i rest where o: "order = i # rest" and gi: "g i = Inr item"
    and r: "map Inr items = map g rest" by (cases order) auto
  from Cons.IH [OF r] Cons.prems(2) o have "map h items = map k rest" by simp
  moreover from Cons.prems(2) [of i item] o gi have "h item = k i" by simp
  ultimately show ?case using o by simp
qed

lemma fetched_items:
  assumes "map Inr items = map g order" and "item \<in> set items"
  shows "\<exists>i\<in>set order. g i = Inr item"
proof -
  from assms(2) have "Inr item \<in> set (map Inr items)" by simp
  then have "Inr item \<in> set (map g order)" unfolding assms(1) [symmetric] .
  then show ?thesis by auto
qed

lemma loader_pass:
  assumes cover: "encodings_cover ds" and fields: "has_fields ds"
    and idx: "\<forall>i\<in>set (sampler (DataLoader ds bs sh) perm). i < len ds"
    and pos: "0 < bs"
  shows "\<exists>batches.
     loader_iter (DataLoader ds bs sh) perm = Inr batches \<and>
     list_all readable batches \<and>
     length batches = (length (sampler (DataLoader ds bs sh) perm) + bs - 1) div bs \<and>
     map (\<lambda>item. dict_get item ''labels'') (concat batches) =
       map (\<lambda>i. Inr (Tensor0 (labels ds ! i))) (sampler (DataLoader ds bs sh) perm)"
proof -
  let ?s = "sampler (DataLoader ds bs sh) perm"
  let ?g = "\<lambda>i. getitem ds (int i)"
  from loader_iter_batches [OF cover idx pos] obtain batches where
    it: "loader_iter (DataLoader ds bs sh) perm = Inr batches"
    and content: "map Inr (concat batches) = map ?g ?s"
    and n: "length batches = (length ?s + bs - 1) div bs" by blast
  have each: "(\<exists>t. dict_get item ''input_ids'' = Inr t) \<and>
         (\<exists>t. dict_get item ''attention_mask'' = Inr t) \<and>
         (\<exists>t. dict_get item ''labels'' = Inr t)" if "item \<in> set (concat batches)" for item
  proof -
    from fetched_items [OF content that] obtain i where "getitem ds (int i) = Inr item" by blast
    from getitem_fields [OF this fields] show ?thesis by blast
  qed
  have "list_all readable batches"
    unfolding list_all_iff
  proof
    fix b assume b: "b \<in> set batches"
    then have sub: "set b \<subseteq> set (concat batches)" by auto
    have "\<exists>ts. batch_field b key = Inr ts"
      if "key = ''input_ids'' \<or> key = ''attention_mask'' \<or> key = ''labels''" for key
      unfolding batch_field_def
    proof (rule map_err_total)
      show "list_all (\<lambda>x. \<exists>y. dict_get x key = Inr y) b"
        unfolding list_all_iff using each sub that by blast
    qed
    then show "readable b" by (simp add: readable_def)
  qed
  moreover have "map (\<lambda>item. dict_get item ''labels'') (concat batches) =
       map (\<lambda>i. Inr (Tensor0 (labels ds ! i))) ?s"
    using content
  proof (rule map_through)
    fix i item assume "getitem ds (int i) = Inr item"
    from getitem_fields [OF this fields]
    show "dict_get item ''labels'' = Inr (Tensor0 (labels ds ! i))" by simp
  qed
  ultimately show ?thesis using it n by blast
qed

lemma inj_Inr_map: "map Inr xs = map Inr ys \<Longrightarrow> xs = ys"
  by (simp add: inj_map_eq_map inj_def)

lemma labels_in_order: "map (\<lambda>i. Tensor0 (labels ds ! i)) [0..<len ds] = map Tensor0 (labels ds)"
proof -
  have "map (\<lambda>i. Tensor0 (labels ds ! i)) [0..<len ds] = map Tensor0 (map ((!) (labels ds)) [0..<length (labels ds)])"
    by (simp add: len_def)
  then show ?thesis by (simp only: map_nth)
qed

lemma loader_len_pos: "0 < len ds \<Longrightarrow> 0 < loader_len (DataLoader ds 8 sh)"
  by (simp add: div_greater_zero_iff)

subsection \<open>An epoch over well-formed datasets\<close>

lemma perm_indices:
  assumes "mset perm = mset [0..<n]"
  shows "length perm = n" and "\<forall>i\<in>set perm. i < n"
proof -
  from assms have "size (mset perm) = size (mset [0..<n])" by simp
  then show "length perm = n" by simp
  from assms have "set perm = set [0..<n]" by (rule mset_eq_setD)
  then show "\<forall>i\<in>set perm. i < n" by simp
qed

lemma labels_of_pass:
  assumes "map (Inr :: tensor \<Rightarrow> error + tensor) lbls = map (\<lambda>item. dict_get item ''labels'') items"
    and "map (\<lambda>item. dict_get item ''labels'') items = map (\<lambda>i. Inr (Tensor0 (labels ds ! i))) order"
  shows "lbls = map (\<lambda>i. Tensor0 (labels ds ! i)) order"
proof -
  have e: "map (\<lambda>i. Inr (Tensor0 (labels ds ! i)) :: error + tensor) order =
        map Inr (map (\<lambda>i. Tensor0 (labels ds ! i)) order)" by simp
  from assms have "map (Inr :: tensor \<Rightarrow> error + tensor) lbls =
      map (\<lambda>i. Inr (Tensor0 (labels ds ! i))) order" by (rule trans)
  from this e have "map (Inr :: tensor \<Rightarrow> error + tensor) lbls =
      map Inr (map (\<lambda>i. Tensor0 (labels ds ! i)) order)" by (rule trans)
  then show ?thesis by (rule inj_Inr_map)
qed

lemma accuracy_bounds: "xs \<noteq> [] \<Longrightarrow> 0 \<le> accuracy xs \<and> accuracy xs \<le> 1"
proof -
  assume "xs \<noteq> []"
  moreover have "length (filter hit xs) \<le> length xs" by (rule length_filter_le)
  ultimately show ?thesis by (simp add: accuracy_def divide_le_eq)
qed

text \<open>
  An epoch of the loop over well-formed datasets that are not empty, with an optimizer
  over the trainable parameters: it returns, its training loop is a training pass over
  the batches of the train loader, its validation loop an evaluation pass of the trained
  model, and it reports what the outcomes of the two passes give.
\<close>

lemma run_epoch_refines:
  assumes p: "pooler_shape T" and a: "architecture m = head_architecture nc" and nc: "0 < nc"
    and tr: "encodings_cover train_dataset" "has_fields train_dataset" "0 < len train_dataset"
    and va: "encodings_cover val_dataset" "has_fields val_dataset" "0 < len val_dataset"
    and perm: "mset perm = mset [0..<len train_dataset]"
    and inv: "param_groups opt = trainable_params m"
  shows "\<exists>m1 opt' elog tbs vbs outs vouts.
     run_epoch T (train_loader train_dataset) (val_loader val_dataset) perm (m, opt) e =
       Inr ((m1\<lparr>training := False\<rparr>, opt'), elog) \<and>
     loader_iter (train_loader train_dataset) perm = Inr tbs \<and>
     loader_iter (val_loader val_dataset) [] = Inr vbs \<and>
     training_pass T (m\<lparr>training := True\<rparr>, opt) tbs = Inr ((m1, opt'), outs) \<and>
     evaluation_pass T (m1\<lparr>training := False\<rparr>) vbs = Inr vouts \<and>
     printed elog = epoch_report (e + 1) outs vouts \<and>
     length outs = loader_len (train_loader train_dataset) \<and>
     length vouts = loader_len (val_loader val_dataset) \<and>
     map snd (examples_of outs) = map (\<lambda>i. Tensor0 (labels train_dataset ! i)) perm \<and>
     map snd (examples_of vouts) = map Tensor0 (labels val_dataset) \<and>
     list_all (\<lambda>row. length row = nc) (map fst (examples_of outs)) \<and>
     list_all (\<lambda>row. length row = nc) (map fst (examples_of vouts)) \<and>
     architecture m1 = architecture m \<and> training m1 \<and>
     param_groups opt' = trainable_params m1 \<and>
     step_count opt' = step_count opt + loader_len (train_loader train_dataset)"
proof -
  let ?trl = "DataLoader train_dataset 8 True"
  let ?vl = "DataLoader val_dataset 8 False"
  note pi = perm_indices [OF perm]
  from pi(2) have tidx: "\<forall>i\<in>set (sampler ?trl perm). i < len train_dataset" by simp
  have vidx: "\<forall>i\<in>set (sampler ?vl []). i < len val_dataset" by simp
  from loader_pass [OF tr(1) tr(2) tidx] obtain tbs where
    t1: "loader_iter ?trl perm = Inr tbs" and t2: "list_all readable tbs"
    and t3: "length tbs = (length perm + 8 - 1) div 8"
    and t4: "map (\<lambda>item. dict_get item ''labels'') (concat tbs) =
       map (\<lambda>i. Inr (Tensor0 (labels train_dataset ! i))) perm"
    by auto
  from loader_pass [OF va(1) va(2) vidx] obtain vbs where
    v1: "loader_iter ?vl [] = Inr vbs" and v2: "list_all readable vbs"
    and v3: "length vbs = (length [0..<len val_dataset] + 8 - 1) div 8"
    and v4: "map (\<lambda>item. dict_get item ''labels'') (concat vbs) =
       map (\<lambda>i. Inr (Tensor0 (labels val_dataset ! i))) [0..<len val_dataset]"
    by auto
  from t3 pi(1) have tn: "length tbs = loader_len ?trl" by simp
  from v3 have vn: "length vbs = loader_len ?vl" by simp
  let ?m0 = "m\<lparr>training := True\<rparr>"
  from a have a1: "architecture ?m0 = head_architecture nc" by simp
  from inv have inv0: "param_groups opt = trainable_params ?m0" by simp
  from train_batches_total [OF p nc a1 t2, of opt totals0] obtain m1 opt1 tot where
    tb: "train_batches T (?m0, opt, totals0) tbs = Inr (m1, opt1, tot)" by blast
  note tf = train_batches_facts [OF tb]
  from train_batches_refines [OF tb inv0, of nc] p a1 obtain outs where
    o1: "training_pass T (?m0, opt) tbs = Inr ((m1, opt1), outs)"
    and o2: "length outs = length tbs"
    and o3: "total_loss tot = sum_list (map loss_of outs)"
    and o4: "total_correct tot = length (filter hit (examples_of outs))"
    and o5: "total_examples tot = length (examples_of outs)"
    and o6: "map Inr (map snd (examples_of outs)) = map (\<lambda>item. dict_get item ''labels'') (concat tbs)"
    and o7: "param_groups opt1 = trainable_params m1"
    and o8: "list_all (\<lambda>row. length row = nc) (map fst (examples_of outs))"
    by (auto simp: totals0_def)
  let ?m' = "m1\<lparr>training := False\<rparr>"
  from tf a have a2: "architecture ?m' = head_architecture nc" by simp
  from eval_batches_total [OF p a2 nc v2, of totals0] obtain vtot where
    vb: "val_batches T ?m' totals0 vbs = Inr vtot" by blast
  from val_batches_refines [OF vb, of nc] p a2 obtain vouts where
    w1: "evaluation_pass T ?m' vbs = Inr vouts"
    and w2: "length vouts = length vbs"
    and w3: "total_loss vtot = sum_list (map loss_of vouts)"
    and w4: "total_correct vtot = length (filter hit (examples_of vouts))"
    and w5: "total_examples vtot = length (examples_of vouts)"
    and w6: "map Inr (map snd (examples_of vouts)) = map (\<lambda>item. dict_get item ''labels'') (concat vbs)"
    and w8: "list_all (\<lambda>row. length row = nc) (map fst (examples_of vouts))"
    by (auto simp: totals0_def)
  from o6 t4 have tl: "map snd (examples_of outs) = map (\<lambda>i. Tensor0 (labels train_dataset ! i)) perm"
    by (rule labels_of_pass)
  from w6 v4 have "map snd (examples_of vouts) =
      map (\<lambda>i. Tensor0 (labels val_dataset ! i)) [0..<len val_dataset]"
    by (rule labels_of_pass)
  then have vl: "map snd (examples_of vouts) = map Tensor0 (labels val_dataset)"
    by (simp only: labels_in_order)
  from tl have "length (map snd (examples_of outs)) = length perm" by simp
  with pi(1) have ts: "length (examples_of outs) = len train_dataset" by simp
  from vl have "length (map snd (examples_of vouts)) = length (labels val_dataset)" by simp
  then have vs: "length (examples_of vouts) = len val_dataset" by (simp add: len_def)
  from tr(3) have tpos: "0 < loader_len ?trl" by (rule loader_len_pos)
  from va(3) have vpos: "0 < loader_len ?vl" by (rule loader_len_pos)
  let ?elog = "\<lparr>printed = \<lparr>epoch_number = e + 1, of_epochs = EPOCHS,
        avg_train_loss = total_loss tot / real (loader_len ?trl),
        train_acc = real (total_correct tot) / real (total_examples tot),
        avg_val_loss = total_loss vtot / real (loader_len ?vl),
        val_acc = real (total_correct vtot) / real (total_examples vtot)\<rparr>,
      train_totals = tot, val_totals = vtot\<rparr>"
  have run: "run_epoch T (train_loader train_dataset) (val_loader val_dataset) perm (m, opt) e =
       Inr ((?m', opt1), ?elog)"
    using t1 tb v1 vb tpos vpos o5 w5 ts vs tr(3) va(3)
    by (simp add: run_epoch_def train_loader_def val_loader_def batch_size_def py_div_def)
  have rep: "printed ?elog = epoch_report (e + 1) outs vouts"
    using o2 o3 o4 o5 w2 w3 w4 w5 tn vn
    by (simp add: epoch_report_def mean_def accuracy_def EPOCHS_def)
  have it: "loader_iter (train_loader train_dataset) perm = Inr tbs"
    using t1 by (simp add: train_loader_def batch_size_def)
  have iv: "loader_iter (val_loader val_dataset) [] = Inr vbs"
    using v1 by (simp add: val_loader_def batch_size_def)
  have n1: "length outs = loader_len (train_loader train_dataset)"
    using o2 tn by (simp add: train_loader_def batch_size_def)
  have n2: "length vouts = loader_len (val_loader val_dataset)"
    using w2 vn by (simp add: val_loader_def batch_size_def)
  from tf have ar: "architecture m1 = architecture m" and trn: "training m1" by simp_all
  from tf n1 o2 have sc: "step_count opt1 = step_count opt + loader_len (train_loader train_dataset)"
    by simp
  from run it iv o1 w1 rep n1 n2 tl vl o8 w8 ar trn o7 sc show ?thesis by blast
qed

subsection \<open>The training loop and the test pass\<close>

lemma epochs_loop_facts:
  "epochs_loop T trl vl perms (m, opt) logs es = Inr ((m', opt'), logs') \<Longrightarrow>
   architecture m' = architecture m \<and> param_groups opt' = param_groups opt \<and>
   (frozen m \<and> list_all head_ref (param_groups opt) \<longrightarrow> bert m' = bert m)"
proof (induction es arbitrary: m opt logs)
  case Nil
  then show ?case by simp
next
  case (Cons e es)
  from Cons.prems obtain m1 opt1 elog where
    one: "run_epoch T trl vl (perms e) (m, opt) e = Inr ((m1, opt1), elog)"
    and rest: "epochs_loop T trl vl perms (m1, opt1) (logs @ [elog]) es = Inr ((m', opt'), logs')"
    by (auto split: sum.splits)
  note f = run_epoch_facts [OF one]
  note ih = Cons.IH [OF rest]
  have "frozen m \<and> list_all head_ref (param_groups opt) \<longrightarrow> bert m' = bert m"
  proof
    assume h: "frozen m \<and> list_all head_ref (param_groups opt)"
    with f have b1: "bert m1 = bert m" by blast
    with h have "frozen m1" by (simp add: frozen_def)
    with h f ih b1 show "bert m' = bert m" by simp
  qed
  with f ih show ?case by simp
qed

text \<open>
  The training loop over well-formed datasets that are not empty, with an optimizer over
  the trainable parameters: two epochs, the second from the model and the optimizer that
  the first leaves.
\<close>

lemma training_loop_refines:
  assumes p: "pooler_shape T" and a: "architecture m = head_architecture nc" and nc: "0 < nc"
    and tr: "encodings_cover train_dataset" "has_fields train_dataset" "0 < len train_dataset"
    and va: "encodings_cover val_dataset" "has_fields val_dataset" "0 < len val_dataset"
    and perms: "\<forall>e. mset (perms e) = mset [0..<len train_dataset]"
    and inv: "param_groups opt = trainable_params m"
  shows "\<exists>m1 opt1 m2 opt2 log1 log2 tbs1 tbs2 vbs outs1 vouts1 outs2 vouts2.
     training_loop T (train_loader train_dataset) (val_loader val_dataset) perms (m, opt) =
       Inr ((m2\<lparr>training := False\<rparr>, opt2), [log1, log2]) \<and>
     EPOCHS = 2 \<and>
     loader_iter (train_loader train_dataset) (perms 0) = Inr tbs1 \<and>
     loader_iter (train_loader train_dataset) (perms 1) = Inr tbs2 \<and>
     loader_iter (val_loader val_dataset) [] = Inr vbs \<and>
     training_pass T (m\<lparr>training := True\<rparr>, opt) tbs1 = Inr ((m1, opt1), outs1) \<and>
     evaluation_pass T (m1\<lparr>training := False\<rparr>) vbs = Inr vouts1 \<and>
     training_pass T (m1\<lparr>training := True\<rparr>, opt1) tbs2 = Inr ((m2, opt2), outs2) \<and>
     evaluation_pass T (m2\<lparr>training := False\<rparr>) vbs = Inr vouts2 \<and>
     printed log1 = epoch_report 1 outs1 vouts1 \<and>
     printed log2 = epoch_report 2 outs2 vouts2 \<and>
     length outs1 = loader_len (train_loader train_dataset) \<and>
     length outs2 = loader_len (train_loader train_dataset) \<and>
     length vouts1 = loader_len (val_loader val_dataset) \<and>
     length vouts2 = loader_len (val_loader val_dataset) \<and>
     map snd (examples_of outs1) = map (\<lambda>i. Tensor0 (labels train_dataset ! i)) (perms 0) \<and>
     map snd (examples_of outs2) = map (\<lambda>i. Tensor0 (labels train_dataset ! i)) (perms 1) \<and>
     map snd (examples_of vouts1) = map Tensor0 (labels val_dataset) \<and>
     map snd (examples_of vouts2) = map Tensor0 (labels val_dataset) \<and>
     step_count opt2 = step_count opt + 2 * loader_len (train_loader train_dataset)"
proof -
  let ?trl = "train_loader train_dataset" and ?vl = "val_loader val_dataset"
  from perms have p0: "mset (perms 0) = mset [0..<len train_dataset]"
    and p1: "mset (perms (Suc 0)) = mset [0..<len train_dataset]" by simp_all
  from run_epoch_refines [OF p a nc tr va p0 inv, of 0] obtain m1 opt1 log1 tbs1 vbs outs1 vouts1 where
    r1: "run_epoch T ?trl ?vl (perms 0) (m, opt) 0 = Inr ((m1\<lparr>training := False\<rparr>, opt1), log1)"
    and i1: "loader_iter ?trl (perms 0) = Inr tbs1"
    and iv: "loader_iter ?vl [] = Inr vbs"
    and t1: "training_pass T (m\<lparr>training := True\<rparr>, opt) tbs1 = Inr ((m1, opt1), outs1)"
    and e1: "evaluation_pass T (m1\<lparr>training := False\<rparr>) vbs = Inr vouts1"
    and pr1: "printed log1 = epoch_report (0 + 1) outs1 vouts1"
    and n1: "length outs1 = loader_len ?trl" and nv1: "length vouts1 = loader_len ?vl"
    and l1: "map snd (examples_of outs1) = map (\<lambda>i. Tensor0 (labels train_dataset ! i)) (perms 0)"
    and lv1: "map snd (examples_of vouts1) = map Tensor0 (labels val_dataset)"
    and a1: "architecture m1 = architecture m"
    and inv1: "param_groups opt1 = trainable_params m1"
    and s1: "step_count opt1 = step_count opt + loader_len ?trl"
    by blast
  let ?m1 = "m1\<lparr>training := False\<rparr>"
  from a1 a have a1': "architecture ?m1 = head_architecture nc" by simp
  from inv1 have inv1': "param_groups opt1 = trainable_params ?m1" by simp
  from run_epoch_refines [OF p a1' nc tr va p1 inv1', of "Suc 0"]
  obtain m2 opt2 log2 tbs2 vbs' outs2 vouts2 where
    r2: "run_epoch T ?trl ?vl (perms (Suc 0)) (?m1, opt1) (Suc 0) =
       Inr ((m2\<lparr>training := False\<rparr>, opt2), log2)"
    and i2: "loader_iter ?trl (perms (Suc 0)) = Inr tbs2"
    and iv': "loader_iter ?vl [] = Inr vbs'"
    and t2: "training_pass T (?m1\<lparr>training := True\<rparr>, opt1) tbs2 = Inr ((m2, opt2), outs2)"
    and e2: "evaluation_pass T (m2\<lparr>training := False\<rparr>) vbs' = Inr vouts2"
    and pr2: "printed log2 = epoch_report (Suc 0 + 1) outs2 vouts2"
    and n2: "length outs2 = loader_len ?trl" and nv2: "length vouts2 = loader_len ?vl"
    and l2: "map snd (examples_of outs2) = map (\<lambda>i. Tensor0 (labels train_dataset ! i)) (perms (Suc 0))"
    and lv2: "map snd (examples_of vouts2) = map Tensor0 (labels val_dataset)"
    and s2: "step_count opt2 = step_count opt1 + loader_len ?trl"
    by blast
  from iv iv' have vv: "vbs' = vbs" by simp
  have run: "training_loop T ?trl ?vl perms (m, opt) = Inr ((m2\<lparr>training := False\<rparr>, opt2), [log1, log2])"
    by (simp add: training_loop_def EPOCHS_def upt_two r1 r2)
  have ep: "EPOCHS = 2" by (simp add: EPOCHS_def)
  have i2': "loader_iter ?trl (perms 1) = Inr tbs2" using i2 by simp
  have t2': "training_pass T (m1\<lparr>training := True\<rparr>, opt1) tbs2 = Inr ((m2, opt2), outs2)"
    using t2 by simp
  have e2': "evaluation_pass T (m2\<lparr>training := False\<rparr>) vbs = Inr vouts2"
    using e2 vv by simp
  have pr1': "printed log1 = epoch_report 1 outs1 vouts1" using pr1 by simp
  have "Suc 0 + 1 = (2::nat)" by simp
  with pr2 have pr2': "printed log2 = epoch_report 2 outs2 vouts2" by (simp only:)
  have l2': "map snd (examples_of outs2) = map (\<lambda>i. Tensor0 (labels train_dataset ! i)) (perms 1)"
    using l2 by simp
  have sc: "step_count opt2 = step_count opt + 2 * loader_len ?trl" using s1 s2 by simp
  from run ep i1 i2' iv t1 e1 t2' e2' pr1' pr2' n1 n2 nv1 nv2 l1 l2' lv1 lv2 sc
  show ?thesis by blast
qed

text \<open>The test cell over a well-formed test set that is not empty.\<close>

lemma test_evaluation_refines:
  assumes p: "pooler_shape T" and a: "architecture m = head_architecture nc" and nc: "0 < nc"
    and te: "encodings_cover test_dataset" "has_fields test_dataset" "0 < len test_dataset"
  shows "\<exists>test_acc tot batches outs.
     test_evaluation T m (test_loader test_dataset) = Inr (test_acc, tot) \<and>
     loader_iter (test_loader test_dataset) [] = Inr batches \<and>
     evaluation_pass T (m\<lparr>training := False\<rparr>) batches = Inr outs \<and>
     map snd (examples_of outs) = map Tensor0 (labels test_dataset) \<and>
     list_all (\<lambda>row. length row = nc) (map fst (examples_of outs)) \<and>
     length (examples_of outs) = len test_dataset \<and>
     test_acc = real (length (filter hit (examples_of outs))) / real (len test_dataset) \<and>
     test_acc = accuracy (examples_of outs) \<and>
     0 \<le> test_acc \<and> test_acc \<le> 1"
proof -
  let ?tl = "DataLoader test_dataset 8 False"
  let ?m = "m\<lparr>training := False\<rparr>"
  have idx: "\<forall>i\<in>set (sampler ?tl []). i < len test_dataset" by simp
  from loader_pass [OF te(1) te(2) idx] obtain bs where
    b1: "loader_iter ?tl [] = Inr bs" and b2: "list_all readable bs"
    and b4: "map (\<lambda>item. dict_get item ''labels'') (concat bs) =
       map (\<lambda>i. Inr (Tensor0 (labels test_dataset ! i))) [0..<len test_dataset]"
    by auto
  from a have a': "architecture ?m = head_architecture nc" by simp
  from eval_batches_total [OF p a' nc b2, of totals0] obtain tot where
    tb: "test_batches T ?m totals0 bs = Inr tot" by blast
  from test_batches_refines [OF tb, of nc] p a' obtain outs where
    w1: "evaluation_pass T ?m bs = Inr outs"
    and w4: "total_correct tot = length (filter hit (examples_of outs))"
    and w5: "total_examples tot = length (examples_of outs)"
    and w6: "map Inr (map snd (examples_of outs)) = map (\<lambda>item. dict_get item ''labels'') (concat bs)"
    and w8: "list_all (\<lambda>row. length row = nc) (map fst (examples_of outs))"
    by (auto simp: totals0_def)
  from w6 b4 have "map snd (examples_of outs) =
      map (\<lambda>i. Tensor0 (labels test_dataset ! i)) [0..<len test_dataset]"
    by (rule labels_of_pass)
  then have lab: "map snd (examples_of outs) = map Tensor0 (labels test_dataset)"
    by (simp only: labels_in_order)
  then have "length (map snd (examples_of outs)) = length (labels test_dataset)" by simp
  then have n: "length (examples_of outs) = len test_dataset" by (simp add: len_def)
  with te(3) have ne: "examples_of outs \<noteq> []" by auto
  let ?acc = "real (total_correct tot) / real (total_examples tot)"
  have acc: "?acc = accuracy (examples_of outs)" by (simp add: accuracy_def w4 w5)
  have acc': "?acc = real (length (filter hit (examples_of outs))) / real (len test_dataset)"
    by (simp add: w4 w5 n)
  from accuracy_bounds [OF ne] acc have bd: "0 \<le> ?acc \<and> ?acc \<le> 1" by simp
  have run: "test_evaluation T m (test_loader test_dataset) = Inr (?acc, tot)"
    using b1 tb w5 n te(3) by (simp add: test_evaluation_def test_loader_def batch_size_def py_div_def)
  have it: "loader_iter (test_loader test_dataset) [] = Inr bs"
    using b1 by (simp add: test_loader_def batch_size_def)
  from run it w1 lab w8 n acc acc' bd show ?thesis by blast
qed

text \<open>An empty test set has no accuracy: the division raises.\<close>

lemma test_evaluation_empty:
  "test_evaluation T m (test_loader \<lparr>encodings = [], labels = []\<rparr>) = Inl ZeroDivisionError"
  by (simp add: test_evaluation_def test_loader_def batch_size_def len_def py_div_def totals0_def)

subsection \<open>Accuracy and epochs\<close>

lemma has_fields_ds_ten: "has_fields ds_ten"
  by (simp add: has_fields_def ds_ten_def)

lemma has_fields_ds_example: "has_fields ds_example"
  by (simp add: has_fields_def ds_example_def)

lemma len_ds_ten_pos: "0 < len ds_ten"
  by (simp add: len_ds_ten)

lemma len_ds_example_pos: "0 < len ds_example"
  by (simp add: len_def ds_example_def)

lemma perm_rev_ten: "mset (rev [0..<10]) = mset [0..<len ds_ten]"
  by (simp only: len_ds_ten mset_rev)

lemma perms_rev_ten: "\<forall>e::nat. mset (rev [0..<10]) = mset [0..<len ds_ten]"
  by (simp only: perm_rev_ten) simp

lemma optimizer_of_model0:
  "param_groups (optim_Adam (trainable_params model0) ()) = trainable_params model0"
  by (simp add: optim_Adam_def)

text \<open>
  C5. The accuracy of every evaluated partition is computed by argmax and compare. On
  well-formed partitions that are not empty, and a model whose last layer has 2 outputs:
  \<^item> the test cell returns; the examples it counts are those of an evaluation pass of
    the model, in evaluation mode, over the batches of the test loader: one row of 2
    logits for each example of the test set, beside the label of that example; the
    accuracy it reports is the number of these examples whose argmax equals the label,
    divided by the number of examples of the test set;
  \<^item> an epoch returns; its train accuracy is the same quotient over the examples of its
    training pass, each with the logits of the model as it stood at the example's batch
    and with its label, in the order drawn for the pass; its validation accuracy is that
    quotient over an evaluation pass of the trained model over the validation loader.

  Each accuracy lies between 0 and 1.
\<close>

theorem accuracy_argmax_compare:
  assumes p: "pooler_shape T" and a: "architecture m = head_architecture 2"
    and te: "encodings_cover test_dataset" "has_fields test_dataset" "0 < len test_dataset"
    and tr: "encodings_cover train_dataset" "has_fields train_dataset" "0 < len train_dataset"
    and va: "encodings_cover val_dataset" "has_fields val_dataset" "0 < len val_dataset"
    and perm: "mset perm = mset [0..<len train_dataset]"
    and inv: "param_groups opt = trainable_params m"
  shows
   "(\<exists>test_acc tot batches outs.
       test_evaluation T m (test_loader test_dataset) = Inr (test_acc, tot) \<and>
       loader_iter (test_loader test_dataset) [] = Inr batches \<and>
       evaluation_pass T (m\<lparr>training := False\<rparr>) batches = Inr outs \<and>
       map snd (examples_of outs) = map Tensor0 (labels test_dataset) \<and>
       list_all (\<lambda>row. length row = 2) (map fst (examples_of outs)) \<and>
       length (examples_of outs) = len test_dataset \<and>
       test_acc = real (length (filter hit (examples_of outs))) / real (len test_dataset) \<and>
       0 \<le> test_acc \<and> test_acc \<le> 1) \<and>
    (\<exists>m1 opt' elog tbs vbs outs vouts.
       run_epoch T (train_loader train_dataset) (val_loader val_dataset) perm (m, opt) e =
         Inr ((m1\<lparr>training := False\<rparr>, opt'), elog) \<and>
       loader_iter (train_loader train_dataset) perm = Inr tbs \<and>
       loader_iter (val_loader val_dataset) [] = Inr vbs \<and>
       training_pass T (m\<lparr>training := True\<rparr>, opt) tbs = Inr ((m1, opt'), outs) \<and>
       evaluation_pass T (m1\<lparr>training := False\<rparr>) vbs = Inr vouts \<and>
       map snd (examples_of outs) = map (\<lambda>i. Tensor0 (labels train_dataset ! i)) perm \<and>
       map snd (examples_of vouts) = map Tensor0 (labels val_dataset) \<and>
       list_all (\<lambda>row. length row = 2) (map fst (examples_of outs)) \<and>
       list_all (\<lambda>row. length row = 2) (map fst (examples_of vouts)) \<and>
       length (examples_of outs) = len train_dataset \<and>
       length (examples_of vouts) = len val_dataset \<and>
       train_acc (printed elog) =
         real (length (filter hit (examples_of outs))) / real (len train_dataset) \<and>
       val_acc (printed elog) =
         real (length (filter hit (examples_of vouts))) / real (len val_dataset) \<and>
       0 \<le> train_acc (printed elog) \<and> train_acc (printed elog) \<le> 1 \<and>
       0 \<le> val_acc (printed elog) \<and> val_acc (printed elog) \<le> 1)"
proof (rule conjI)
  have two: "0 < (2::nat)" by simp
  from test_evaluation_refines [OF p a two te]
  show "\<exists>test_acc tot batches outs.
       test_evaluation T m (test_loader test_dataset) = Inr (test_acc, tot) \<and>
       loader_iter (test_loader test_dataset) [] = Inr batches \<and>
       evaluation_pass T (m\<lparr>training := False\<rparr>) batches = Inr outs \<and>
       map snd (examples_of outs) = map Tensor0 (labels test_dataset) \<and>
       list_all (\<lambda>row. length row = 2) (map fst (examples_of outs)) \<and>
       length (examples_of outs) = len test_dataset \<and>
       test_acc = real (length (filter hit (examples_of outs))) / real (len test_dataset) \<and>
       0 \<le> test_acc \<and> test_acc \<le> 1"
    by blast
next
  have two: "0 < (2::nat)" by simp
  from run_epoch_refines [OF p a two tr va perm inv, of e]
  obtain m1 opt' elog tbs vbs outs vouts where
    r: "run_epoch T (train_loader train_dataset) (val_loader val_dataset) perm (m, opt) e =
         Inr ((m1\<lparr>training := False\<rparr>, opt'), elog)"
    and it: "loader_iter (train_loader train_dataset) perm = Inr tbs"
    and iv: "loader_iter (val_loader val_dataset) [] = Inr vbs"
    and tp: "training_pass T (m\<lparr>training := True\<rparr>, opt) tbs = Inr ((m1, opt'), outs)"
    and ev: "evaluation_pass T (m1\<lparr>training := False\<rparr>) vbs = Inr vouts"
    and pr: "printed elog = epoch_report (e + 1) outs vouts"
    and tl: "map snd (examples_of outs) = map (\<lambda>i. Tensor0 (labels train_dataset ! i)) perm"
    and vl: "map snd (examples_of vouts) = map Tensor0 (labels val_dataset)"
    and tw: "list_all (\<lambda>row. length row = 2) (map fst (examples_of outs))"
    and vw: "list_all (\<lambda>row. length row = 2) (map fst (examples_of vouts))"
    by blast
  from tl have "length (map snd (examples_of outs)) = length perm" by simp
  with perm_indices(1) [OF perm] have tn: "length (examples_of outs) = len train_dataset" by simp
  from vl have "length (map snd (examples_of vouts)) = length (labels val_dataset)" by simp
  then have vn: "length (examples_of vouts) = len val_dataset" by (simp add: len_def)
  from tn tr(3) have tne: "examples_of outs \<noteq> []" by auto
  from vn va(3) have vne: "examples_of vouts \<noteq> []" by auto
  from pr have ta: "train_acc (printed elog) = accuracy (examples_of outs)"
    and vc: "val_acc (printed elog) = accuracy (examples_of vouts)"
    by (simp_all add: epoch_report_def)
  have ta': "train_acc (printed elog) =
         real (length (filter hit (examples_of outs))) / real (len train_dataset)"
    unfolding ta by (simp add: accuracy_def tn)
  have vc': "val_acc (printed elog) =
         real (length (filter hit (examples_of vouts))) / real (len val_dataset)"
    unfolding vc by (simp add: accuracy_def vn)
  from accuracy_bounds [OF tne] ta
  have tb: "0 \<le> train_acc (printed elog)" "train_acc (printed elog) \<le> 1" by simp_all
  from accuracy_bounds [OF vne] vc
  have vb: "0 \<le> val_acc (printed elog)" "val_acc (printed elog) \<le> 1" by simp_all
  from r it iv tp ev tl vl tw vw tn vn ta' vc' tb vb
  show "\<exists>m1 opt' elog tbs vbs outs vouts.
       run_epoch T (train_loader train_dataset) (val_loader val_dataset) perm (m, opt) e =
         Inr ((m1\<lparr>training := False\<rparr>, opt'), elog) \<and>
       loader_iter (train_loader train_dataset) perm = Inr tbs \<and>
       loader_iter (val_loader val_dataset) [] = Inr vbs \<and>
       training_pass T (m\<lparr>training := True\<rparr>, opt) tbs = Inr ((m1, opt'), outs) \<and>
       evaluation_pass T (m1\<lparr>training := False\<rparr>) vbs = Inr vouts \<and>
       map snd (examples_of outs) = map (\<lambda>i. Tensor0 (labels train_dataset ! i)) perm \<and>
       map snd (examples_of vouts) = map Tensor0 (labels val_dataset) \<and>
       list_all (\<lambda>row. length row = 2) (map fst (examples_of outs)) \<and>
       list_all (\<lambda>row. length row = 2) (map fst (examples_of vouts)) \<and>
       length (examples_of outs) = len train_dataset \<and>
       length (examples_of vouts) = len val_dataset \<and>
       train_acc (printed elog) =
         real (length (filter hit (examples_of outs))) / real (len train_dataset) \<and>
       val_acc (printed elog) =
         real (length (filter hit (examples_of vouts))) / real (len val_dataset) \<and>
       0 \<le> train_acc (printed elog) \<and> train_acc (printed elog) \<le> 1 \<and>
       0 \<le> val_acc (printed elog) \<and> val_acc (printed elog) \<le> 1"
    by blast
qed

theorem accuracy_argmax_compare_witness:
  "pooler_shape torch0 \<and> architecture model0 = head_architecture 2 \<and>
   encodings_cover ds_example \<and> has_fields ds_example \<and> 0 < len ds_example \<and>
   encodings_cover ds_ten \<and> has_fields ds_ten \<and> 0 < len ds_ten \<and>
   mset (rev [0..<10]) = mset [0..<len ds_ten] \<and>
   param_groups (optim_Adam (trainable_params model0) ()) = trainable_params model0 \<and>
   (\<exists>test_acc tot batches outs.
       test_evaluation torch0 model0 (test_loader ds_example) = Inr (test_acc, tot) \<and>
       loader_iter (test_loader ds_example) [] = Inr batches \<and>
       evaluation_pass torch0 (model0\<lparr>training := False\<rparr>) batches = Inr outs \<and>
       map snd (examples_of outs) = map Tensor0 (labels ds_example) \<and>
       list_all (\<lambda>row. length row = 2) (map fst (examples_of outs)) \<and>
       length (examples_of outs) = len ds_example \<and>
       test_acc = real (length (filter hit (examples_of outs))) / real (len ds_example) \<and>
       0 \<le> test_acc \<and> test_acc \<le> 1) \<and>
   (\<exists>m1 opt' elog tbs vbs outs vouts.
       run_epoch torch0 (train_loader ds_ten) (val_loader ds_example) (rev [0..<10])
         (model0, optim_Adam (trainable_params model0) ()) 0 =
         Inr ((m1\<lparr>training := False\<rparr>, opt'), elog) \<and>
       loader_iter (train_loader ds_ten) (rev [0..<10]) = Inr tbs \<and>
       loader_iter (val_loader ds_example) [] = Inr vbs \<and>
       training_pass torch0 (model0\<lparr>training := True\<rparr>, optim_Adam (trainable_params model0) ()) tbs =
         Inr ((m1, opt'), outs) \<and>
       evaluation_pass torch0 (m1\<lparr>training := False\<rparr>) vbs = Inr vouts \<and>
       map snd (examples_of outs) = map (\<lambda>i. Tensor0 (labels ds_ten ! i)) (rev [0..<10]) \<and>
       map snd (examples_of vouts) = map Tensor0 (labels ds_example) \<and>
       list_all (\<lambda>row. length row = 2) (map fst (examples_of outs)) \<and>
       list_all (\<lambda>row. length row = 2) (map fst (examples_of vouts)) \<and>
       length (examples_of outs) = len ds_ten \<and>
       length (examples_of vouts) = len ds_example \<and>
       train_acc (printed elog) =
         real (length (filter hit (examples_of outs))) / real (len ds_ten) \<and>
       val_acc (printed elog) =
         real (length (filter hit (examples_of vouts))) / real (len ds_example) \<and>
       0 \<le> train_acc (printed elog) \<and> train_acc (printed elog) \<le> 1 \<and>
       0 \<le> val_acc (printed elog) \<and> val_acc (printed elog) \<le> 1)"
proof -
  note th = accuracy_argmax_compare [OF pooler_shape_torch0 architecture_model0
      encodings_cover_ds_example has_fields_ds_example len_ds_example_pos
      encodings_cover_ds_ten has_fields_ds_ten len_ds_ten_pos
      encodings_cover_ds_example has_fields_ds_example len_ds_example_pos
      perm_rev_ten optimizer_of_model0, of 0]
  show ?thesis
    by (intro conjI pooler_shape_torch0 architecture_model0 encodings_cover_ds_example
        has_fields_ds_example len_ds_example_pos encodings_cover_ds_ten has_fields_ds_ten
        len_ds_ten_pos perm_rev_ten optimizer_of_model0 th [THEN conjunct1] th [THEN conjunct2])
qed

text \<open>
  C6. The training loop runs exactly two epochs, numbered 1 and 2. On well-formed train
  and validation sets that are not empty, with the optimizer over the trainable
  parameters, it returns, and each epoch is a training pass over the batches of the train
  loader, in the order drawn for the epoch, followed by an evaluation pass of the trained
  model over the batches of the validation loader. The training pass visits every batch
  once: it takes the cross-entropy loss of the model's logits on the batch, then makes a
  training step, in which every trainable parameter receives the gradient of that loss
  and Adam's new value. The second epoch starts from the model and the optimizer that the
  first leaves. Each epoch reports, for the train and for the validation set, the
  accuracy over the examples and the loss, which is the arithmetic mean of the batch
  losses of the pass.

  The three calls of a training batch are what make the training step: with any
  optimizer over the trainable parameters of a model, \<open>zero_grad\<close> clears the gradients
  of these parameters, and \<open>zero_grad\<close>, \<open>backward\<close> and \<open>step\<close> one after the other give
  the model and the optimizer of the training step. Backpropagation by itself, on any
  model, gives every parameter that requires a gradient the gradient of the loss, added
  to the gradient it held, and changes no other parameter.
\<close>

theorem training_loop_two_epochs:
  assumes p: "pooler_shape T" and a: "architecture m = head_architecture nc" and nc: "0 < nc"
    and tr: "encodings_cover train_dataset" "has_fields train_dataset" "0 < len train_dataset"
    and va: "encodings_cover val_dataset" "has_fields val_dataset" "0 < len val_dataset"
    and perms: "\<forall>e. mset (perms e) = mset [0..<len train_dataset]"
    and inv: "param_groups opt = trainable_params m"
  shows "(\<exists>m1 opt1 m2 opt2 log1 log2 tbs1 tbs2 vbs outs1 vouts1 outs2 vouts2.
     training_loop T (train_loader train_dataset) (val_loader val_dataset) perms (m, opt) =
       Inr ((m2\<lparr>training := False\<rparr>, opt2), [log1, log2]) \<and>
     EPOCHS = 2 \<and>
     loader_iter (train_loader train_dataset) (perms 0) = Inr tbs1 \<and>
     loader_iter (train_loader train_dataset) (perms 1) = Inr tbs2 \<and>
     loader_iter (val_loader val_dataset) [] = Inr vbs \<and>
     training_pass T (m\<lparr>training := True\<rparr>, opt) tbs1 = Inr ((m1, opt1), outs1) \<and>
     evaluation_pass T (m1\<lparr>training := False\<rparr>) vbs = Inr vouts1 \<and>
     training_pass T (m1\<lparr>training := True\<rparr>, opt1) tbs2 = Inr ((m2, opt2), outs2) \<and>
     evaluation_pass T (m2\<lparr>training := False\<rparr>) vbs = Inr vouts2 \<and>
     printed log1 = epoch_report 1 outs1 vouts1 \<and>
     printed log2 = epoch_report 2 outs2 vouts2 \<and>
     avg_train_loss (printed log1) = sum_list (map loss_of outs1) / real (length outs1) \<and>
     avg_val_loss (printed log1) = sum_list (map loss_of vouts1) / real (length vouts1) \<and>
     avg_train_loss (printed log2) = sum_list (map loss_of outs2) / real (length outs2) \<and>
     avg_val_loss (printed log2) = sum_list (map loss_of vouts2) / real (length vouts2) \<and>
     length outs1 = loader_len (train_loader train_dataset) \<and>
     length outs2 = loader_len (train_loader train_dataset) \<and>
     length vouts1 = loader_len (val_loader val_dataset) \<and>
     length vouts2 = loader_len (val_loader val_dataset) \<and>
     map snd (examples_of outs1) = map (\<lambda>i. Tensor0 (labels train_dataset ! i)) (perms 0) \<and>
     map snd (examples_of outs2) = map (\<lambda>i. Tensor0 (labels train_dataset ! i)) (perms 1) \<and>
     map snd (examples_of vouts1) = map Tensor0 (labels val_dataset) \<and>
     map snd (examples_of vouts2) = map Tensor0 (labels val_dataset) \<and>
     step_count opt2 = step_count opt + 2 * loader_len (train_loader train_dataset)) \<and>
    (\<forall>m0 opt0 input_ids attention_mask lbls.
     param_groups opt0 = trainable_params m0 \<longrightarrow>
       zero_grad opt0 m0 = cleared m0 \<and>
       step T opt0 (backward T (zero_grad opt0 m0) input_ids attention_mask lbls) =
         training_step T (m0, opt0) input_ids attention_mask lbls) \<and>
    (\<forall>m0 input_ids attention_mask lbls r.
     get_param (backward T m0 input_ids attention_mask lbls) r =
       map_option
         (\<lambda>p. if requires_grad p
              then p\<lparr>grad := Some (case grad p of
                                     None \<Rightarrow> autograd T m0 input_ids attention_mask lbls r
                                   | Some g0 \<Rightarrow> accumulate T g0 (autograd T m0 input_ids attention_mask lbls r))\<rparr>
              else p)
         (get_param m0 r))"
proof (intro conjI)
  from training_loop_refines [OF p a nc tr va perms inv]
  obtain m1 opt1 m2 opt2 log1 log2 tbs1 tbs2 vbs outs1 vouts1 outs2 vouts2 where
    f: "training_loop T (train_loader train_dataset) (val_loader val_dataset) perms (m, opt) =
       Inr ((m2\<lparr>training := False\<rparr>, opt2), [log1, log2])"
     "EPOCHS = 2"
     "loader_iter (train_loader train_dataset) (perms 0) = Inr tbs1"
     "loader_iter (train_loader train_dataset) (perms 1) = Inr tbs2"
     "loader_iter (val_loader val_dataset) [] = Inr vbs"
     "training_pass T (m\<lparr>training := True\<rparr>, opt) tbs1 = Inr ((m1, opt1), outs1)"
     "evaluation_pass T (m1\<lparr>training := False\<rparr>) vbs = Inr vouts1"
     "training_pass T (m1\<lparr>training := True\<rparr>, opt1) tbs2 = Inr ((m2, opt2), outs2)"
     "evaluation_pass T (m2\<lparr>training := False\<rparr>) vbs = Inr vouts2"
    and pr: "printed log1 = epoch_report 1 outs1 vouts1"
     "printed log2 = epoch_report 2 outs2 vouts2"
    and g: "length outs1 = loader_len (train_loader train_dataset)"
     "length outs2 = loader_len (train_loader train_dataset)"
     "length vouts1 = loader_len (val_loader val_dataset)"
     "length vouts2 = loader_len (val_loader val_dataset)"
     "map snd (examples_of outs1) = map (\<lambda>i. Tensor0 (labels train_dataset ! i)) (perms 0)"
     "map snd (examples_of outs2) = map (\<lambda>i. Tensor0 (labels train_dataset ! i)) (perms 1)"
     "map snd (examples_of vouts1) = map Tensor0 (labels val_dataset)"
     "map snd (examples_of vouts2) = map Tensor0 (labels val_dataset)"
     "step_count opt2 = step_count opt + 2 * loader_len (train_loader train_dataset)"
    by blast
  from pr have l:
    "avg_train_loss (printed log1) = sum_list (map loss_of outs1) / real (length outs1)"
    "avg_val_loss (printed log1) = sum_list (map loss_of vouts1) / real (length vouts1)"
    "avg_train_loss (printed log2) = sum_list (map loss_of outs2) / real (length outs2)"
    "avg_val_loss (printed log2) = sum_list (map loss_of vouts2) / real (length vouts2)"
    by (simp_all add: epoch_report_def mean_def)
  from f pr l g
  show "\<exists>m1 opt1 m2 opt2 log1 log2 tbs1 tbs2 vbs outs1 vouts1 outs2 vouts2.
     training_loop T (train_loader train_dataset) (val_loader val_dataset) perms (m, opt) =
       Inr ((m2\<lparr>training := False\<rparr>, opt2), [log1, log2]) \<and>
     EPOCHS = 2 \<and>
     loader_iter (train_loader train_dataset) (perms 0) = Inr tbs1 \<and>
     loader_iter (train_loader train_dataset) (perms 1) = Inr tbs2 \<and>
     loader_iter (val_loader val_dataset) [] = Inr vbs \<and>
     training_pass T (m\<lparr>training := True\<rparr>, opt) tbs1 = Inr ((m1, opt1), outs1) \<and>
     evaluation_pass T (m1\<lparr>training := False\<rparr>) vbs = Inr vouts1 \<and>
     training_pass T (m1\<lparr>training := True\<rparr>, opt1) tbs2 = Inr ((m2, opt2), outs2) \<and>
     evaluation_pass T (m2\<lparr>training := False\<rparr>) vbs = Inr vouts2 \<and>
     printed log1 = epoch_report 1 outs1 vouts1 \<and>
     printed log2 = epoch_report 2 outs2 vouts2 \<and>
     avg_train_loss (printed log1) = sum_list (map loss_of outs1) / real (length outs1) \<and>
     avg_val_loss (printed log1) = sum_list (map loss_of vouts1) / real (length vouts1) \<and>
     avg_train_loss (printed log2) = sum_list (map loss_of outs2) / real (length outs2) \<and>
     avg_val_loss (printed log2) = sum_list (map loss_of vouts2) / real (length vouts2) \<and>
     length outs1 = loader_len (train_loader train_dataset) \<and>
     length outs2 = loader_len (train_loader train_dataset) \<and>
     length vouts1 = loader_len (val_loader val_dataset) \<and>
     length vouts2 = loader_len (val_loader val_dataset) \<and>
     map snd (examples_of outs1) = map (\<lambda>i. Tensor0 (labels train_dataset ! i)) (perms 0) \<and>
     map snd (examples_of outs2) = map (\<lambda>i. Tensor0 (labels train_dataset ! i)) (perms 1) \<and>
     map snd (examples_of vouts1) = map Tensor0 (labels val_dataset) \<and>
     map snd (examples_of vouts2) = map Tensor0 (labels val_dataset) \<and>
     step_count opt2 = step_count opt + 2 * loader_len (train_loader train_dataset)"
    by blast
next
  show "\<forall>m0 opt0 input_ids attention_mask lbls.
     param_groups opt0 = trainable_params m0 \<longrightarrow>
       zero_grad opt0 m0 = cleared m0 \<and>
       step T opt0 (backward T (zero_grad opt0 m0) input_ids attention_mask lbls) =
         training_step T (m0, opt0) input_ids attention_mask lbls"
    using zero_grad_cleared [of _ _ ] step_backward_zero_grad [of _ _ T] by blast
next
  show "\<forall>m0 input_ids attention_mask lbls r.
     get_param (backward T m0 input_ids attention_mask lbls) r =
       map_option
         (\<lambda>p. if requires_grad p
              then p\<lparr>grad := Some (case grad p of
                                     None \<Rightarrow> autograd T m0 input_ids attention_mask lbls r
                                   | Some g0 \<Rightarrow> accumulate T g0 (autograd T m0 input_ids attention_mask lbls r))\<rparr>
              else p)
         (get_param m0 r)"
    by (simp only: backward_params) simp
qed

theorem training_loop_two_epochs_witness:
  "pooler_shape torch0 \<and> architecture model0 = head_architecture 2 \<and> 0 < (2::nat) \<and>
   encodings_cover ds_ten \<and> has_fields ds_ten \<and> 0 < len ds_ten \<and>
   encodings_cover ds_example \<and> has_fields ds_example \<and> 0 < len ds_example \<and>
   (\<forall>e::nat. mset (rev [0..<10]) = mset [0..<len ds_ten]) \<and>
   param_groups (optim_Adam (trainable_params model0) ()) = trainable_params model0 \<and>
   (\<exists>m1 opt1 m2 opt2 log1 log2 tbs1 tbs2 vbs outs1 vouts1 outs2 vouts2.
     training_loop torch0 (train_loader ds_ten) (val_loader ds_example) (\<lambda>e. rev [0..<10])
       (model0, optim_Adam (trainable_params model0) ()) =
       Inr ((m2\<lparr>training := False\<rparr>, opt2), [log1, log2]) \<and>
     EPOCHS = 2 \<and>
     loader_iter (train_loader ds_ten) (rev [0..<10]) = Inr tbs1 \<and>
     loader_iter (train_loader ds_ten) (rev [0..<10]) = Inr tbs2 \<and>
     loader_iter (val_loader ds_example) [] = Inr vbs \<and>
     training_pass torch0 (model0\<lparr>training := True\<rparr>, optim_Adam (trainable_params model0) ()) tbs1 =
       Inr ((m1, opt1), outs1) \<and>
     evaluation_pass torch0 (m1\<lparr>training := False\<rparr>) vbs = Inr vouts1 \<and>
     training_pass torch0 (m1\<lparr>training := True\<rparr>, opt1) tbs2 = Inr ((m2, opt2), outs2) \<and>
     evaluation_pass torch0 (m2\<lparr>training := False\<rparr>) vbs = Inr vouts2 \<and>
     printed log1 = epoch_report 1 outs1 vouts1 \<and>
     printed log2 = epoch_report 2 outs2 vouts2 \<and>
     avg_train_loss (printed log1) = sum_list (map loss_of outs1) / real (length outs1) \<and>
     avg_val_loss (printed log1) = sum_list (map loss_of vouts1) / real (length vouts1) \<and>
     avg_train_loss (printed log2) = sum_list (map loss_of outs2) / real (length outs2) \<and>
     avg_val_loss (printed log2) = sum_list (map loss_of vouts2) / real (length vouts2) \<and>
     length outs1 = loader_len (train_loader ds_ten) \<and>
     length outs2 = loader_len (train_loader ds_ten) \<and>
     length vouts1 = loader_len (val_loader ds_example) \<and>
     length vouts2 = loader_len (val_loader ds_example) \<and>
     map snd (examples_of outs1) = map (\<lambda>i. Tensor0 (labels ds_ten ! i)) (rev [0..<10]) \<and>
     map snd (examples_of outs2) = map (\<lambda>i. Tensor0 (labels ds_ten ! i)) (rev [0..<10]) \<and>
     map snd (examples_of vouts1) = map Tensor0 (labels ds_example) \<and>
     map snd (examples_of vouts2) = map Tensor0 (labels ds_example) \<and>
     step_count opt2 =
       step_count (optim_Adam (trainable_params model0) ()) + 2 * loader_len (train_loader ds_ten)) \<and>
   zero_grad (optim_Adam (trainable_params model0) ()) model0 = cleared model0 \<and>
   step torch0 (optim_Adam (trainable_params model0) ())
     (backward torch0 (zero_grad (optim_Adam (trainable_params model0) ()) model0)
        [Tensor1 [101, 102]] [Tensor1 [1, 1]] [Tensor0 1]) =
     training_step torch0 (model0, optim_Adam (trainable_params model0) ())
       [Tensor1 [101, 102]] [Tensor1 [1, 1]] [Tensor0 1] \<and>
   (\<forall>m0 input_ids attention_mask lbls r.
     get_param (backward torch0 m0 input_ids attention_mask lbls) r =
       map_option
         (\<lambda>p. if requires_grad p
              then p\<lparr>grad := Some (case grad p of
                                     None \<Rightarrow> autograd torch0 m0 input_ids attention_mask lbls r
                                   | Some g0 \<Rightarrow> accumulate torch0 g0 (autograd torch0 m0 input_ids attention_mask lbls r))\<rparr>
              else p)
         (get_param m0 r))"
proof -
  have two: "0 < (2::nat)" by simp
  note th = training_loop_two_epochs [OF pooler_shape_torch0 architecture_model0 two
      encodings_cover_ds_ten has_fields_ds_ten len_ds_ten_pos
      encodings_cover_ds_example has_fields_ds_example len_ds_example_pos,
      where perms = "\<lambda>e. rev [0..<10]" and opt = "optim_Adam (trainable_params model0) ()",
      OF perms_rev_ten optimizer_of_model0]
  note z = th [THEN conjunct2, THEN conjunct1, THEN spec, THEN spec, THEN spec, THEN spec,
      THEN spec, THEN mp, OF optimizer_of_model0,
      of "[Tensor1 [101, 102]]" "[Tensor1 [1, 1]]" "[Tensor0 1]"]
  show ?thesis
    by (intro conjI pooler_shape_torch0 architecture_model0 two
        encodings_cover_ds_ten has_fields_ds_ten len_ds_ten_pos
        encodings_cover_ds_example has_fields_ds_example len_ds_example_pos perms_rev_ten
        optimizer_of_model0 th [THEN conjunct1] z [THEN conjunct1] z [THEN conjunct2]
        th [THEN conjunct2, THEN conjunct2])
qed

subsection \<open>The frozen encoder\<close>

lemma head_refs_trainable:
  "list_all head_ref (trainable_params (CustomBERTModel_init pretrained w0 b0 nc))"
  by (simp add: trainable_params_init)

text \<open>
  C1. The encoder is frozen and only the classifier head is trained. After
  \<open>__init__\<close> no parameter of the encoder requires a gradient; the optimizer is built
  over exactly the trainable parameters, which are the weights and biases of the four
  linear layers of the classifier; \<open>backward\<close> leaves every parameter of the encoder
  as it is, and so does every \<open>zero_grad\<close> and every step of this optimizer, on any
  model; at the end of the training loop the encoder's parameters are those it started
  with.
\<close>

theorem encoder_frozen:
  assumes m0: "m0 = CustomBERTModel_init pretrained w0 b0 nc"
    and opt0: "opt0 = optim_Adam (trainable_params m0) s0"
  shows
   "list_all (\<lambda>p. \<not> requires_grad p) (bert m0) \<and>
    param_groups opt0 = trainable_params m0 \<and>
    parameters m0 = map BertParam [0..<length (bert m0)] @ trainable_params m0 \<and>
    trainable_params m0 =
      [HeadWeight 0, HeadBias 0, HeadWeight 2, HeadBias 2,
       HeadWeight 4, HeadBias 4, HeadWeight 6, HeadBias 6] \<and>
    (\<forall>opt m. param_groups opt = param_groups opt0 \<longrightarrow>
       bert (zero_grad opt m) = bert m \<and> bert (fst (step T opt m)) = bert m) \<and>
    (\<forall>m input_ids attention_mask lbls. bert m = bert m0 \<longrightarrow>
       bert (backward T m input_ids attention_mask lbls) = bert m0) \<and>
    (\<forall>trl vl perms m' opt' logs.
       training_loop T trl vl perms (m0, opt0) = Inr ((m', opt'), logs) \<longrightarrow>
       bert m' = bert m0 \<and> param_groups opt' = param_groups opt0)"
proof -
  from m0 have fz: "frozen m0" by (simp add: frozen_init)
  from m0 opt0 have hr: "list_all head_ref (param_groups opt0)"
    by (simp add: optim_Adam_def head_refs_trainable)
  from fz have c1: "list_all (\<lambda>p. \<not> requires_grad p) (bert m0)" by (simp add: frozen_def)
  from opt0 have c2: "param_groups opt0 = trainable_params m0" by (simp add: optim_Adam_def)
  from m0 have c3: "parameters m0 = map BertParam [0..<length (bert m0)] @ trainable_params m0"
    by (simp add: parameters_init trainable_params_init) (simp add: CustomBERTModel_init_def)
  from m0 have c4: "trainable_params m0 =
      [HeadWeight 0, HeadBias 0, HeadWeight 2, HeadBias 2,
       HeadWeight 4, HeadBias 4, HeadWeight 6, HeadBias 6]"
    by (simp add: trainable_params_init)
  have c5: "\<forall>opt m. param_groups opt = param_groups opt0 \<longrightarrow>
       bert (zero_grad opt m) = bert m \<and> bert (fst (step T opt m)) = bert m"
    using hr by (simp add: bert_zero_grad step_facts)
  have c6: "\<forall>m input_ids attention_mask lbls. bert m = bert m0 \<longrightarrow>
       bert (backward T m input_ids attention_mask lbls) = bert m0"
    using fz bert_backward [of _ T] by (simp add: frozen_def)
  have c7: "\<forall>trl vl perms m' opt' logs.
       training_loop T trl vl perms (m0, opt0) = Inr ((m', opt'), logs) \<longrightarrow>
       bert m' = bert m0 \<and> param_groups opt' = param_groups opt0"
    using fz hr epochs_loop_facts [of T _ _ _ m0 opt0 "[]" "[0..<EPOCHS]"]
    by (simp add: training_loop_def)
  from c1 c2 c3 c4 c5 c6 c7 show ?thesis by (intro conjI)
qed

theorem encoder_frozen_witness:
  "model0 = CustomBERTModel_init [\<lparr>data = (\<lambda>ix. 5), requires_grad = True, grad = None\<rparr>]
       (\<lambda>k ix. 0) (\<lambda>k ix. 0) 2 \<and>
   bert model0 = [\<lparr>data = (\<lambda>ix. 5), requires_grad = False, grad = None\<rparr>] \<and>
   bert (fst (step torch0 (optim_Adam (trainable_params model0) ()) model0)) = bert model0 \<and>
   bert (backward torch0 model0 [Tensor1 [101, 102]] [Tensor1 [1, 1]] [Tensor0 1]) = bert model0 \<and>
   (\<exists>m' opt' logs.
      training_loop torch0 (train_loader ds_ten) (val_loader ds_example) (\<lambda>e. rev [0..<10])
        (model0, optim_Adam (trainable_params model0) ()) = Inr ((m', opt'), logs) \<and>
      bert m' = bert model0 \<and>
      param_groups opt' = param_groups (optim_Adam (trainable_params model0) ()))"
proof -
  have two: "0 < (2::nat)" by simp
  note th = encoder_frozen [OF model0_def refl, where T = torch0 and ?s0.0 = "()"]
  have b: "bert model0 = [\<lparr>data = (\<lambda>ix. 5), requires_grad = False, grad = None\<rparr>]"
    by (simp add: model0_def CustomBERTModel_init_def)
  have s: "bert (fst (step torch0 (optim_Adam (trainable_params model0) ()) model0)) = bert model0"
    using th by blast
  have bw: "bert (backward torch0 model0 [Tensor1 [101, 102]] [Tensor1 [1, 1]] [Tensor0 1]) = bert model0"
    using th by blast
  from training_loop_refines [OF pooler_shape_torch0 architecture_model0 two
      encodings_cover_ds_ten has_fields_ds_ten len_ds_ten_pos
      encodings_cover_ds_example has_fields_ds_example len_ds_example_pos,
      where perms = "\<lambda>e. rev [0..<10]" and opt = "optim_Adam (trainable_params model0) ()",
      OF perms_rev_ten optimizer_of_model0]
  obtain m' opt' log1 log2 where
    r: "training_loop torch0 (train_loader ds_ten) (val_loader ds_example) (\<lambda>e. rev [0..<10])
        (model0, optim_Adam (trainable_params model0) ()) = Inr ((m', opt'), [log1, log2])"
    by blast
  from th r have "bert m' = bert model0 \<and>
      param_groups opt' = param_groups (optim_Adam (trainable_params model0) ())"
    by blast
  with r have run: "\<exists>m' opt' logs.
      training_loop torch0 (train_loader ds_ten) (val_loader ds_example) (\<lambda>e. rev [0..<10])
        (model0, optim_Adam (trainable_params model0) ()) = Inr ((m', opt'), logs) \<and>
      bert m' = bert model0 \<and>
      param_groups opt' = param_groups (optim_Adam (trainable_params model0) ())"
    by blast
  show ?thesis by (intro conjI model0_def b s bw run)
qed

text \<open>Had the loop over the encoder's parameters been left out, a step would change them.\<close>

lemma unfrozen_encoder_changes:
  "data (hd (bert (fst (step torch0
      \<lparr>param_groups = [BertParam 0], state = (), step_count = 0\<rparr>
      \<lparr>bert = [\<lparr>data = (\<lambda>ix. 5), requires_grad = True, grad = Some (\<lambda>ix. 1)\<rparr>],
        classifier = [], training = True\<rparr>)))) [] = (4::int)"
  by (simp add: step_def step_param_def get_param_def map_param_def torch0_def)

subsection \<open>The datasets of the notebook\<close>

text \<open>
  The datasets of the notebook are built from the tokenizer's output and one label per
  text: their encodings cover the labels and hold the fields that the loops read.
\<close>

lemma tokenized_dataset:
  assumes "length lbls \<le> length texts"
  shows "encodings_cover \<lparr>encodings = tokenize_function wp texts, labels = lbls\<rparr> \<and>
         has_fields \<lparr>encodings = tokenize_function wp texts, labels = lbls\<rparr> \<and>
         distinct (map fst (encodings \<lparr>encodings = tokenize_function wp texts, labels = lbls\<rparr>))"
  using assms
  by (simp add: tokenize_function_def tokenizer_max_length encodings_cover_def has_fields_def)

end
